theory Spec2Isabelle
  imports Complex_Main
begin

section \<open>Python values used by the dashboard code\<close>

text \<open>
  The exceptions the modelled functions can raise. A function that can raise returns
  \<open>py_error + 'a\<close>, with \<open>Inl\<close> for the exception.
\<close>

datatype py_error = ValueError | KeyError | AttributeError | TypeError

text \<open>
  A pandas timestamp, through the accessors the code reads: the calendar day
  (\<open>.dt.date\<close>, \<open>.dt.normalize()\<close>; a day number), the time within the day, and
  the calendar fields \<open>.dt.year\<close>, \<open>.dt.month\<close>, \<open>.dt.isocalendar().week\<close>.
\<close>

record timestamp =
  ts_day :: int
  ts_time_of_day :: nat
  ts_year :: int
  ts_month :: nat
  ts_week :: nat

text \<open>
  A DataFrame: the column names it has, and its rows. The rows are records typed by the
  table's schema; the field of a column that the frame does not have is never read.
  \<open>None\<close> of type \<open>'r frame option\<close> is Python's \<open>None\<close>.
\<close>

record 'r frame =
  columns :: "string list"
  rows :: "'r list"

definition df_empty :: "'r frame \<Rightarrow> bool" where
  "df_empty df \<longleftrightarrow> columns df = [] \<or> rows df = []"

definition has_col :: "'r frame \<Rightarrow> string \<Rightarrow> bool" where
  "has_col df c \<longleftrightarrow> c \<in> set (columns df)"

text \<open>A text cell: \<open>None\<close> is a missing value (NaN); \<open>str(cell)\<close> of NaN is \<open>nan\<close>.\<close>

definition cell_str :: "string option \<Rightarrow> string" where
  "cell_str c = (case c of None \<Rightarrow> ''nan'' | Some s \<Rightarrow> s)"

subsection \<open>\<open>int(str)\<close>, \<open>str.split\<close>, \<open>str(int)\<close>\<close>

definition is_digit :: "char \<Rightarrow> bool" where
  "is_digit c \<longleftrightarrow> c \<in> set ''0123456789''"

definition digit_val :: "char \<Rightarrow> nat" where
  "digit_val c = of_char c - 48"

text \<open>
  The characters \<open>int()\<close> and \<open>float()\<close> strip from a string of ASCII characters: tab, LF,
  VT, FF, CR and space.
\<close>

definition is_space :: "char \<Rightarrow> bool" where
  "is_space c \<longleftrightarrow> (of_char c :: nat) \<in> {9, 10, 11, 12, 13, 32}"

definition py_strip :: "string \<Rightarrow> string" where
  "py_strip s = rev (dropWhile is_space (rev (dropWhile is_space s)))"

text \<open>Decimal digits, with single underscores allowed between two digits.\<close>

fun parse_digits :: "nat \<Rightarrow> string \<Rightarrow> nat option" where
  "parse_digits acc [] = Some acc"
| "parse_digits acc (c # cs) =
     (if is_digit c then parse_digits (acc * 10 + digit_val c) cs
      else if c = CHR ''_'' \<and> cs \<noteq> [] \<and> is_digit (hd cs) then parse_digits acc cs
      else None)"

definition py_digits :: "string \<Rightarrow> nat option" where
  "py_digits s = (if s \<noteq> [] \<and> is_digit (hd s) then parse_digits 0 s else None)"

text \<open>
  \<open>int(s)\<close> for a string of ASCII characters: surrounding whitespace is stripped, one
  sign is allowed; \<open>None\<close> is the ValueError.
\<close>

definition py_int :: "string \<Rightarrow> int option" where
  "py_int s =
     (let t = py_strip s in
      if t = [] then None
      else if hd t = CHR ''-'' then map_option (\<lambda>n. - int n) (py_digits (tl t))
      else if hd t = CHR ''+'' then map_option int (py_digits (tl t))
      else map_option int (py_digits t))"

text \<open>\<open>s.split(sep)\<close> for a one-character separator.\<close>

fun split_on :: "char \<Rightarrow> string \<Rightarrow> string list" where
  "split_on sep [] = [[]]"
| "split_on sep (c # cs) =
     (if c = sep then [] # split_on sep cs
      else (case split_on sep cs of p # ps \<Rightarrow> (c # p) # ps | [] \<Rightarrow> [[c]]))"

text \<open>
  \<open>h, m = map(int, s.split(':'))\<close>: exactly two parts, both accepted by \<open>int\<close>;
  \<open>None\<close> is the ValueError of the unpacking or of \<open>int\<close>.
\<close>

definition parse_hm :: "string \<Rightarrow> (int \<times> int) option" where
  "parse_hm s =
     (case split_on CHR '':'' s of
        [a, b] \<Rightarrow> (case py_int a of None \<Rightarrow> None
                   | Some h \<Rightarrow> (case py_int b of None \<Rightarrow> None | Some m \<Rightarrow> Some (h, m)))
      | _ \<Rightarrow> None)"

definition digit_char :: "nat \<Rightarrow> char" where
  "digit_char n = ''0123456789'' ! n"

fun show_nat :: "nat \<Rightarrow> string" where
  "show_nat n = (if n < 10 then [digit_char n] else show_nat (n div 10) @ [digit_char (n mod 10)])"

declare show_nat.simps [simp del]

text \<open>\<open>str(i)\<close> of an integer.\<close>

definition show_int :: "int \<Rightarrow> string" where
  "show_int i = (if i < 0 then CHR ''-'' # show_nat (nat (- i)) else show_nat (nat i))"

text \<open>The format \<open>{n:02d}\<close> of a natural number.\<close>

definition fmt02 :: "nat \<Rightarrow> string" where
  "fmt02 n = (if n < 10 then CHR ''0'' # show_nat n else show_nat n)"

subsection \<open>Floating-point numbers\<close>

text \<open>
  A Python float is an IEEE 754 binary64 number: a finite number, held as the rational
  number it denotes (the sign of zero is not kept), an infinity, or NaN.
\<close>

datatype float64 = Finite rat | PosInf | NegInf | NaN

text \<open>Rounding to the nearest integer, a tie to the even one (\<open>np.rint\<close>).\<close>

definition round_half_even :: "rat \<Rightarrow> int" where
  "round_half_even q =
     (let f = \<lfloor>q\<rfloor>; d = q - of_int f in
      if d < 1 / 2 then f else if 1 / 2 < d then f + 1 else if even f then f else f + 1)"

text \<open>
  The significand and the exponent of a positive number: \<open>norm_down\<close> and \<open>norm_up\<close>
  halve and double \<open>m\<close>, keeping \<open>m * 2 ^ e\<close>, until \<open>2 ^ 52 \<le> m < 2 ^ 53\<close> or, for a
  subnormal number, the least exponent \<open>- 1074\<close> is reached.
\<close>

function norm_down :: "rat \<Rightarrow> int \<Rightarrow> rat \<times> int" where
  "norm_down m e = (if 2 ^ 53 \<le> m then norm_down (m / 2) (e + 1) else (m, e))"
  by pat_completeness auto

termination
proof (relation "measure (\<lambda>(m, e). nat \<lfloor>m\<rfloor>)")
  show "wf (measure (\<lambda>(m, e). nat \<lfloor>m\<rfloor>))" by simp
next
  fix m :: rat and e :: int
  assume a: "2 ^ 53 \<le> m"
  have "m / 2 \<le> m - 1" using a by simp
  then have "\<lfloor>m / 2\<rfloor> \<le> \<lfloor>m - 1\<rfloor>" by (rule floor_mono)
  moreover have "1 \<le> \<lfloor>m\<rfloor>" using a by (simp add: le_floor_iff)
  ultimately show "((m / 2, e + 1), (m, e)) \<in> measure (\<lambda>(m, e). nat \<lfloor>m\<rfloor>)"
    by simp
qed

function norm_up :: "rat \<Rightarrow> int \<Rightarrow> rat \<times> int" where
  "norm_up m e = (if m < 2 ^ 52 \<and> - 1074 < e then norm_up (m * 2) (e - 1) else (m, e))"
  by pat_completeness auto

termination
  by (relation "measure (\<lambda>(m, e). nat (e + 1074))") simp_all

declare norm_down.simps [simp del] norm_up.simps [simp del]

definition pow_int :: "rat \<Rightarrow> int \<Rightarrow> rat" where
  "pow_int b k = (if 0 \<le> k then b ^ nat k else 1 / b ^ nat (- k))"

text \<open>
  The result of a floating-point operation whose exact result is \<open>z\<close>: the nearest number
  with a significand of 53 bits, a tie to the even significand. \<open>fl\<close> has no largest
  exponent; \<open>to_float64\<close> has the overflow to an infinity.
\<close>

definition fl :: "rat \<Rightarrow> rat" where
  "fl z =
     (if z = 0 then 0
      else case norm_down \<bar>z\<bar> 0 of (m, e) \<Rightarrow>
           (case norm_up m e of (m', e') \<Rightarrow>
              sgn z * of_int (round_half_even m') * pow_int 2 e'))"

definition to_float64 :: "rat \<Rightarrow> float64" where
  "to_float64 z =
     (if 2 ^ 1024 \<le> \<bar>fl z\<bar> then (if z < 0 then NegInf else PosInf) else Finite (fl z))"

subsection \<open>\<open>float(str)\<close>\<close>

definition lower_ascii :: "char \<Rightarrow> char" where
  "lower_ascii c =
     (case map_of (zip ''ABCDEFGHIJKLMNOPQRSTUVWXYZ'' ''abcdefghijklmnopqrstuvwxyz'') c of
        None \<Rightarrow> c
      | Some l \<Rightarrow> l)"

text \<open>
  The underscores of a numeric literal are removed; each must follow a digit and precede
  a digit. \<open>prev\<close> is the character before, \<open>None\<close> at the start of the string.
\<close>

fun drop_underscores :: "char option \<Rightarrow> string \<Rightarrow> string option" where
  "drop_underscores prev [] = (if prev = Some CHR ''_'' then None else Some [])"
| "drop_underscores prev (c # cs) =
     (if c = CHR ''_'' then
        (case prev of
           None \<Rightarrow> None
         | Some p \<Rightarrow> if is_digit p then drop_underscores (Some c) cs else None)
      else if prev = Some CHR ''_'' \<and> \<not> is_digit c then None
      else map_option ((#) c) (drop_underscores (Some c) cs))"

definition digits_val :: "string \<Rightarrow> nat" where
  "digits_val s = foldl (\<lambda>a c. a * 10 + digit_val c) 0 s"

text \<open>The exponent, after the letter \<open>e\<close>: an optional sign and at least one digit.\<close>

definition parse_exponent :: "string \<Rightarrow> int option" where
  "parse_exponent s =
     (let neg = (s \<noteq> [] \<and> hd s = CHR ''-'');
          ds = (if s \<noteq> [] \<and> (hd s = CHR ''-'' \<or> hd s = CHR ''+'') then tl s else s)
      in if ds = [] \<or> \<not> list_all is_digit ds then None
         else Some (if neg then - int (digits_val ds) else int (digits_val ds)))"

text \<open>
  An unsigned decimal number: digits, with at most one point and at least one digit
  before or after it, and an optional exponent. The value is exact.
\<close>

definition parse_decimal :: "string \<Rightarrow> rat option" where
  "parse_decimal s =
     (let mant = takeWhile (\<lambda>c. c \<noteq> CHR ''e'' \<and> c \<noteq> CHR ''E'') s;
          rest = dropWhile (\<lambda>c. c \<noteq> CHR ''e'' \<and> c \<noteq> CHR ''E'') s;
          ip = takeWhile is_digit mant;
          after = dropWhile is_digit mant;
          fp = (if after = [] then [] else tl after)
      in if (after \<noteq> [] \<and> hd after \<noteq> CHR ''.'') \<or> \<not> list_all is_digit fp \<or> ip @ fp = []
         then None
         else (case (if rest = [] then Some 0 else parse_exponent (tl rest)) of
                 None \<Rightarrow> None
               | Some x \<Rightarrow>
                   Some (of_nat (digits_val (ip @ fp)) * pow_int 10 (x - int (length fp)))))"

text \<open>
  \<open>float(s)\<close> for a string of ASCII characters: surrounding whitespace is stripped and
  underscores between digits are removed; after an optional sign come \<open>inf\<close>,
  \<open>infinity\<close> or \<open>nan\<close> in any case of the letters, or a decimal number, which is rounded
  to the nearest float. \<open>None\<close> is the ValueError.
\<close>

definition py_float :: "string \<Rightarrow> float64 option" where
  "py_float s =
     (case drop_underscores None (py_strip s) of
        None \<Rightarrow> None
      | Some t \<Rightarrow>
          let neg = (t \<noteq> [] \<and> hd t = CHR ''-'');
              body = (if t \<noteq> [] \<and> (hd t = CHR ''-'' \<or> hd t = CHR ''+'') then tl t else t);
              word = map lower_ascii body
          in if word = ''inf'' \<or> word = ''infinity'' then Some (if neg then NegInf else PosInf)
             else if word = ''nan'' then Some NaN
             else map_option (\<lambda>q. to_float64 (if neg then - q else q)) (parse_decimal body))"

section \<open>Booking management (app.py)\<close>

text \<open>
  A cell of the \<open>Duration\<close> column: an integer-valued number, a missing value (NaN) or
  a text.
\<close>

datatype num_cell = NumInt int | NumNaN | NumStr string

text \<open>\<open>int(cell)\<close>: NaN and a text that \<open>int\<close> rejects raise ValueError.\<close>

definition int_of_cell :: "num_cell \<Rightarrow> py_error + int" where
  "int_of_cell c =
     (case c of
        NumInt n \<Rightarrow> Inr n
      | NumNaN \<Rightarrow> Inl ValueError
      | NumStr s \<Rightarrow> (case py_int s of None \<Rightarrow> Inl ValueError | Some n \<Rightarrow> Inr n))"

text \<open>
  A row of appointments.csv, in the columns the booking logic reads.
  \<open>appointment_date\<close> is the cell after \<open>pd.to_datetime\<close>; \<open>None\<close> is NaT.
\<close>

record appointment =
  appointment_id :: "string option"
  preferred_employee :: "string option"
  appointment_date :: "timestamp option"
  time_slot :: "string option"
  duration :: num_cell
  status :: "string option"

text \<open>The boolean mask of \<open>check_overlap\<close> in app.py, for one row.\<close>

definition overlap_mask :: "appointment frame \<Rightarrow> string \<Rightarrow> int \<Rightarrow> appointment \<Rightarrow> bool" where
  "overlap_mask appts employee date r \<longleftrightarrow>
     (has_col appts ''Preferred Employee'' \<and> preferred_employee r = Some employee) \<and>
     map_option ts_day (appointment_date r) = Some date \<and>
     status r \<in> {Some ''Confirmed'', Some ''Pending''}"

text \<open>
  The rows \<open>check_overlap\<close> of app.py iterates over. \<open>exclude_id\<close> is used when it is
  truthy (neither \<open>None\<close> nor the empty string).
\<close>

definition overlap_filtered ::
  "appointment frame \<Rightarrow> string \<Rightarrow> int \<Rightarrow> string option \<Rightarrow> py_error + appointment list" where
  "overlap_filtered appts employee date exclude_id =
     (if \<not> has_col appts ''Appointment Date'' then Inl KeyError
      else if \<not> has_col appts ''Status'' then Inl AttributeError
      else
        let filtered = filter (overlap_mask appts employee date) (rows appts) in
        if exclude_id \<noteq> None \<and> exclude_id \<noteq> Some [] then
          (if \<not> has_col appts ''Appointment ID'' then Inl KeyError
           else Inr (filter (\<lambda>r. appointment_id r \<noteq> exclude_id) filtered))
        else Inr filtered)"

text \<open>\<open>row.get('Time Slot', '00:00')\<close> and \<open>row.get('Duration', 30)\<close>.\<close>

definition row_time_slot :: "appointment frame \<Rightarrow> appointment \<Rightarrow> string" where
  "row_time_slot appts r =
     (if has_col appts ''Time Slot'' then cell_str (time_slot r) else ''00:00'')"

definition row_duration :: "appointment frame \<Rightarrow> appointment \<Rightarrow> num_cell" where
  "row_duration appts r = (if has_col appts ''Duration'' then duration r else NumInt 30)"

text \<open>
  The loop of \<open>check_overlap\<close> in app.py. A row whose time slot does not parse is
  skipped (\<open>except Exception: continue\<close>); \<open>int(row.get('Duration', 30))\<close> is outside
  the \<open>try\<close> and its exception leaves the function.
\<close>

fun overlap_loop :: "appointment frame \<Rightarrow> int \<Rightarrow> int \<Rightarrow> appointment list \<Rightarrow> py_error + bool" where
  "overlap_loop appts req_start req_end [] = Inr False"
| "overlap_loop appts req_start req_end (row # rest) =
     (case parse_hm (row_time_slot appts row) of
        None \<Rightarrow> overlap_loop appts req_start req_end rest
      | Some (exist_h, exist_m) \<Rightarrow>
          (case int_of_cell (row_duration appts row) of
             Inl e \<Rightarrow> Inl e
           | Inr d \<Rightarrow>
               let exist_start = exist_h * 60 + exist_m;
                   exist_end = exist_start + d
               in if req_start < exist_end \<and> req_end > exist_start then Inr True
                  else overlap_loop appts req_start req_end rest))"

definition check_overlap ::
  "appointment frame option \<Rightarrow> string \<Rightarrow> int \<Rightarrow> string \<Rightarrow> int \<Rightarrow> string option
     \<Rightarrow> py_error + bool" where
  "check_overlap appts employee date slot dur exclude_id =
     (case appts of
        None \<Rightarrow> Inr False
      | Some df \<Rightarrow>
          if df_empty df then Inr False
          else
            (case overlap_filtered df employee date exclude_id of
               Inl e \<Rightarrow> Inl e
             | Inr filtered \<Rightarrow>
                 if filtered = [] then Inr False
                 else
                   (case parse_hm slot of
                      None \<Rightarrow> Inl ValueError
                    | Some (req_h, req_m) \<Rightarrow>
                        let req_start = req_h * 60 + req_m;
                            req_end = req_start + dur
                        in overlap_loop df req_start req_end filtered)))"

text \<open>\<open>get_available_slots\<close> of app.py: hours 9 to 19, minutes 0 and 30.\<close>

definition slot_label :: "nat \<Rightarrow> nat \<Rightarrow> string" where
  "slot_label hour minute = fmt02 hour @ '':'' @ fmt02 minute"

definition slot_labels :: "string list" where
  "slot_labels = concat (map (\<lambda>hour. map (slot_label hour) [0, 30]) [9..<20])"

fun collect_slots ::
  "appointment frame option \<Rightarrow> string \<Rightarrow> int \<Rightarrow> int \<Rightarrow> string list \<Rightarrow> string list
     \<Rightarrow> py_error + string list" where
  "collect_slots appts employee date dur all_slots [] = Inr all_slots"
| "collect_slots appts employee date dur all_slots (slot # rest) =
     (case check_overlap appts employee date slot dur None of
        Inl e \<Rightarrow> Inl e
      | Inr b \<Rightarrow>
          collect_slots appts employee date dur
            (if \<not> b then all_slots @ [slot] else all_slots) rest)"

definition get_available_slots ::
  "appointment frame option \<Rightarrow> string \<Rightarrow> int \<Rightarrow> int \<Rightarrow> py_error + string list" where
  "get_available_slots appts employee date dur =
     collect_slots appts employee date dur [] slot_labels"

subsection \<open>Identifier generation: \<open>save_booking\<close> of app.py\<close>

text \<open>\<open>s.replace(old, '')\<close> for a non-empty \<open>old\<close>: every occurrence is removed, left to right.\<close>

function remove_all :: "string \<Rightarrow> string \<Rightarrow> string" where
  "remove_all old s =
     (if s = [] \<or> old = [] then s
      else if take (length old) s = old then remove_all old (drop (length old) s)
      else hd s # remove_all old (tl s))"
  by pat_completeness auto
termination
  by (relation "measure (\<lambda>(old, s). length s)") auto

declare remove_all.simps [simp del]

definition startswith :: "string \<Rightarrow> string \<Rightarrow> bool" where
  "startswith s p \<longleftrightarrow> take (length p) s = p"

text \<open>\<open>max\<close> of a non-empty sequence of integers.\<close>

definition max_int :: "int list \<Rightarrow> int" where
  "max_int ns = fold max (tl ns) (hd ns)"

text \<open>
  The identifier \<open>save_booking\<close> of app.py assigns. A \<open>None\<close> table is replaced by the
  empty frame. Inside the \<open>try\<close>: a missing identifier column (KeyError), an entry
  \<open>int\<close> rejects (ValueError) and \<open>max\<close> of no entry (ValueError) all end in the
  \<open>except\<close> branch.
\<close>

definition booking_id :: "appointment frame option \<Rightarrow> string" where
  "booking_id appointments_df =
     (let ap = (case appointments_df of None \<Rightarrow> \<lparr>columns = [], rows = []\<rparr> | Some df \<Rightarrow> df) in
      if df_empty ap then ''APT1000''
      else if \<not> has_col ap ''Appointment ID'' then ''APT1000''
      else
        let xs = filter (\<lambda>x. startswith x ''APT'') (map (\<lambda>r. cell_str (appointment_id r)) (rows ap))
        in (case those (map (\<lambda>x. py_int (remove_all ''APT'' x)) xs) of
              None \<Rightarrow> ''APT1000''
            | Some ns \<Rightarrow> if ns = [] then ''APT1000'' else ''APT'' @ show_int (max_int ns + 1)))"

definition appointment_columns :: "string list" where
  "appointment_columns =
     [''Appointment ID'', ''Preferred Employee'', ''Appointment Date'', ''Time Slot'',
      ''Duration'', ''Status'']"

text \<open>
  \<open>save_booking\<close> of app.py: the new row gets the identifier and is appended
  (\<open>pd.concat\<close> adds the columns the table did not have); the result is the identifier
  and the table handed to \<open>save_csv\<close>.
\<close>

definition save_booking :: "appointment frame option \<Rightarrow> appointment \<Rightarrow> string \<times> appointment frame" where
  "save_booking appointments_df data =
     (let ap = (case appointments_df of None \<Rightarrow> \<lparr>columns = [], rows = []\<rparr> | Some df \<Rightarrow> df);
          new_id = booking_id appointments_df;
          new_row = data\<lparr>appointment_id := Some new_id\<rparr>;
          ap2 = \<lparr>columns = columns ap @ filter (\<lambda>c. c \<notin> set (columns ap)) appointment_columns,
                 rows = rows ap @ [new_row]\<rparr>
      in (new_id, ap2))"

section \<open>Booking management (utils/booking_tab.py)\<close>

text \<open>
  The second implementation reads the table with \<open>load_appointments()\<close>; the loaded frame
  is the first argument here. The date is compared as a timestamp with
  \<open>pd.to_datetime(date)\<close>, which is midnight of that day.
\<close>

definition bt_overlap_filtered ::
  "appointment frame \<Rightarrow> string \<Rightarrow> int \<Rightarrow> string option \<Rightarrow> py_error + appointment list" where
  "bt_overlap_filtered df employee date exclude_id =
     (if \<not> has_col df ''Preferred Employee'' \<or> \<not> has_col df ''Appointment Date''
         \<or> \<not> has_col df ''Status'' then Inl KeyError
      else
        let df_filtered =
              filter (\<lambda>r. preferred_employee r = Some employee \<and>
                          (case appointment_date r of
                             None \<Rightarrow> False
                           | Some t \<Rightarrow> ts_day t = date \<and> ts_time_of_day t = 0) \<and>
                          status r \<in> {Some ''Confirmed'', Some ''Pending''}) (rows df)
        in if exclude_id \<noteq> None \<and> exclude_id \<noteq> Some [] then
             (if \<not> has_col df ''Appointment ID'' then Inl KeyError
              else Inr (filter (\<lambda>r. appointment_id r \<noteq> exclude_id) df_filtered))
           else Inr df_filtered)"

text \<open>
  The loop of \<open>check_overlap\<close> in booking_tab.py has no \<open>try\<close>: a missing time slot has no
  \<open>split\<close> (AttributeError), a time slot that does not parse raises ValueError, and
  \<open>timedelta(minutes=...)\<close> raises ValueError on NaN and TypeError on a text. Time deltas
  are counted in minutes.
\<close>

fun bt_overlap_loop :: "appointment frame \<Rightarrow> int \<Rightarrow> int \<Rightarrow> appointment list \<Rightarrow> py_error + bool" where
  "bt_overlap_loop df req_start req_end [] = Inr False"
| "bt_overlap_loop df req_start req_end (row # rest) =
     (if \<not> has_col df ''Time Slot'' then Inl KeyError
      else
        (case time_slot row of
           None \<Rightarrow> Inl AttributeError
         | Some s \<Rightarrow>
             (case parse_hm s of
                None \<Rightarrow> Inl ValueError
              | Some (exist_hour, exist_min) \<Rightarrow>
                  if \<not> has_col df ''Duration'' then Inl KeyError
                  else
                    (case duration row of
                       NumNaN \<Rightarrow> Inl ValueError
                     | NumStr t \<Rightarrow> Inl TypeError
                     | NumInt d \<Rightarrow>
                         let exist_start = exist_hour * 60 + exist_min;
                             exist_end = exist_start + d
                         in if req_start < exist_end \<and> req_end > exist_start then Inr True
                            else bt_overlap_loop df req_start req_end rest))))"

definition bt_check_overlap ::
  "appointment frame \<Rightarrow> string \<Rightarrow> int \<Rightarrow> string \<Rightarrow> int \<Rightarrow> string option \<Rightarrow> py_error + bool" where
  "bt_check_overlap df employee date slot dur exclude_id =
     (case bt_overlap_filtered df employee date exclude_id of
        Inl e \<Rightarrow> Inl e
      | Inr df_filtered \<Rightarrow>
          if df_filtered = [] then Inr False
          else
            (case parse_hm slot of
               None \<Rightarrow> Inl ValueError
             | Some (req_hour, req_min) \<Rightarrow>
                 let req_start = req_hour * 60 + req_min;
                     req_end = req_start + dur
                 in bt_overlap_loop df req_start req_end df_filtered))"

text \<open>Python's order on strings: lexicographic, by character code.\<close>

fun str_less :: "string \<Rightarrow> string \<Rightarrow> bool" where
  "str_less [] [] = False"
| "str_less [] (y # ys) = True"
| "str_less (x # xs) [] = False"
| "str_less (x # xs) (y # ys) =
     (if (of_char x :: nat) < of_char y then True
      else if (of_char x :: nat) = of_char y then str_less xs ys
      else False)"

definition str_max :: "string list \<Rightarrow> string" where
  "str_max xs = fold (\<lambda>s m. if str_less m s then s else m) (tl xs) (hd xs)"

text \<open>
  The identifier \<open>save_booking\<close> of booking_tab.py assigns:
  \<open>int(df["Appointment ID"].str.replace("APT", "").max())\<close>. The maximum is taken over
  the texts that remain, missing cells skipped; a column of missing cells only has no
  \<open>.str\<close> accessor.
\<close>

definition bt_booking_id :: "appointment frame \<Rightarrow> py_error + string" where
  "bt_booking_id df =
     (if df_empty df then Inr ''APT1000''
      else if \<not> has_col df ''Appointment ID'' then Inl KeyError
      else
        let suffixes = map (remove_all ''APT'') (List.map_filter appointment_id (rows df))
        in if suffixes = [] then Inl AttributeError
           else (case py_int (str_max suffixes) of
                   None \<Rightarrow> Inl ValueError
                 | Some last_id \<Rightarrow> Inr (''APT'' @ show_int (last_id + 1))))"

section \<open>Queries (query.py)\<close>

text \<open>
  The moments the queries derive from \<open>pd.Timestamp.now()\<close>: the moment itself,
  \<open>now - timedelta(weeks=1)\<close>, and the last day of the previous month
  (\<open>now.replace(day=1) - timedelta(days=1)\<close>).
\<close>

record clock =
  now :: timestamp
  week_ago :: timestamp
  last_prev_month :: timestamp

text \<open>
  A cell of the \<open>Bill Amount\<close> column: a number, a missing value (NaN), or a text, which
  the cells of a column that was not read as numbers are. The code never converts the
  column to numbers. The numbers are whole, as the amounts are that data.py generates, and
  of a size at which a float holds every sum of them exactly (below \<open>2 ^ 53\<close>).
\<close>

datatype amount_cell = Amount int | AmountNaN | AmountText string

text \<open>
  A row of the service sales table. \<open>sale_timestamp\<close> is the \<open>Timestamp\<close> cell after
  \<open>pd.to_datetime(..., errors='coerce')\<close> (\<open>None\<close> is NaT), \<open>phone_number\<close> the text of
  the \<open>Phone Number\<close> cell (\<open>None\<close> a missing cell), \<open>bill_amount\<close> the
  \<open>Bill Amount\<close> cell.
\<close>

record sale =
  sale_timestamp :: "timestamp option"
  phone_number :: "string option"
  bill_amount :: amount_cell

text \<open>
  The values a sum of cells can have, and Python's \<open>+\<close> on them: two numbers are added,
  two texts are concatenated, a number and a text raise TypeError.
\<close>

datatype py_value = PyNum int | PyStr string

fun py_add :: "py_value \<Rightarrow> py_value \<Rightarrow> py_error + py_value" where
  "py_add (PyNum a) (PyNum b) = Inr (PyNum (a + b))"
| "py_add (PyStr s) (PyStr t) = Inr (PyStr (s @ t))"
| "py_add (PyNum a) (PyStr t) = Inl TypeError"
| "py_add (PyStr s) (PyNum b) = Inl TypeError"

fun py_sum_from :: "py_value \<Rightarrow> py_value list \<Rightarrow> py_error + py_value" where
  "py_sum_from acc [] = Inr acc"
| "py_sum_from acc (v # vs) =
     (case py_add acc v of Inl e \<Rightarrow> Inl e | Inr a \<Rightarrow> py_sum_from a vs)"

text \<open>
  \<open>series.sum(min_count=1)\<close>: a missing cell counts as 0, and the cells are added from
  left to right. When fewer than one cell is not missing, the sum is replaced by NaN
  (\<open>None\<close>).
\<close>

definition fillna_0 :: "amount_cell \<Rightarrow> py_value" where
  "fillna_0 c = (case c of Amount q \<Rightarrow> PyNum q | AmountNaN \<Rightarrow> PyNum 0 | AmountText s \<Rightarrow> PyStr s)"

definition sum_min_count_1 :: "amount_cell list \<Rightarrow> py_error + py_value option" where
  "sum_min_count_1 cells =
     (case map fillna_0 cells of
        [] \<Rightarrow> Inr None
      | v # vs \<Rightarrow>
          (case py_sum_from v vs of
             Inl e \<Rightarrow> Inl e
           | Inr s \<Rightarrow> if list_all (\<lambda>c. c = AmountNaN) cells then Inr None else Inr (Some s)))"

text \<open>
  \<open>float(total) if pd.notna(total) else 0.0\<close>: a text is not NaN, and \<open>float\<close> of a
  text that is not a number raises ValueError.
\<close>

definition float_if_notna :: "py_value option \<Rightarrow> py_error + float64" where
  "float_if_notna s =
     (case s of
        None \<Rightarrow> Inr (Finite 0)
      | Some (PyNum n) \<Rightarrow> Inr (Finite (of_int n))
      | Some (PyStr t) \<Rightarrow> (case py_float t of None \<Rightarrow> Inl ValueError | Some x \<Rightarrow> Inr x))"

text \<open>
  The shape the five period sums share: the guard, the mask on the timestamp, the sum of
  \<open>df2.loc[mask, "Bill Amount"]\<close>, which raises KeyError without that column, and the
  conversion of the sum.
\<close>

definition period_sales :: "(timestamp \<Rightarrow> bool) \<Rightarrow> sale frame option \<Rightarrow> py_error + float64" where
  "period_sales in_period df =
     (case df of
        None \<Rightarrow> Inr (Finite 0)
      | Some d \<Rightarrow>
          if df_empty d \<or> \<not> has_col d ''Timestamp'' then Inr (Finite 0)
          else if \<not> has_col d ''Bill Amount'' then Inl KeyError
          else
            let mask = (\<lambda>r. case sale_timestamp r of None \<Rightarrow> False | Some t \<Rightarrow> in_period t)
            in (case sum_min_count_1 (map bill_amount (filter mask (rows d))) of
                  Inl e \<Rightarrow> Inl e
                | Inr s \<Rightarrow> float_if_notna s))"

definition today_sales :: "clock \<Rightarrow> sale frame option \<Rightarrow> py_error + float64" where
  "today_sales c df = period_sales (\<lambda>t. ts_day t = ts_day (now c)) df"






subsection \<open>Attendance statistics\<close>

record attendance =
  att_staff_name :: "string option"
  att_status :: "string option"

record attendance_stat =
  stat_staff_name :: string
  total_days :: nat
  present_days :: nat
  attendance_pct :: "rat option"

text \<open>Group keys come out sorted (\<open>groupby\<close> sorts), in Python's order on strings.\<close>

fun str_insort :: "string \<Rightarrow> string list \<Rightarrow> string list" where
  "str_insort x [] = [x]"
| "str_insort x (y # ys) = (if str_less y x then y # str_insort x ys else x # y # ys)"

definition str_sort :: "string list \<Rightarrow> string list" where
  "str_sort xs = foldr str_insort xs []"

text \<open>
  \<open>round(x, 2)\<close> of a column of floats, as numpy computes it: the float is multiplied
  by 100, rounded to the nearest integer, and divided by 100, each a floating-point
  operation.
\<close>

definition np_round2 :: "rat \<Rightarrow> rat" where
  "np_round2 x = fl (of_int (round_half_even (fl (x * 100))) / 100)"

text \<open>
  \<open>round((present_days / total_days) * 100, 2)\<close> for two counts: the counts are
  converted to floats, divided and multiplied by 100 in floating-point arithmetic, and
  rounded; \<open>0 / 0\<close> is NaN (\<open>None\<close>).
\<close>

definition pct_of_counts :: "nat \<Rightarrow> nat \<Rightarrow> rat option" where
  "pct_of_counts n_present n_total =
     (if n_total = 0 then None
      else Some (np_round2 (fl (fl (fl (of_nat n_present) / fl (of_nat n_total)) * 100))))"

text \<open>
  One row of the result: \<open>count\<close> of the status column counts the cells that are not
  missing.
\<close>

definition staff_stat :: "attendance list \<Rightarrow> string \<Rightarrow> attendance_stat" where
  "staff_stat rs name =
     (let grp = filter (\<lambda>r. att_staff_name r = Some name) rs;
          n_total = length (filter (\<lambda>r. att_status r \<noteq> None) grp);
          n_present = length (filter (\<lambda>r. att_status r = Some ''Present'') grp)
      in \<lparr>stat_staff_name = name, total_days = n_total, present_days = n_present,
          attendance_pct = pct_of_counts n_present n_total\<rparr>)"

text \<open>
  \<open>get_staff_attendance_stats\<close>: no guard; \<open>None\<close> has no \<open>copy\<close>, and each of the three
  columns is read with \<open>[...]\<close>. Rows without a staff name are in no group.
\<close>

definition get_staff_attendance_stats :: "attendance frame option \<Rightarrow> py_error + attendance_stat list" where
  "get_staff_attendance_stats df =
     (case df of
        None \<Rightarrow> Inl AttributeError
      | Some d \<Rightarrow>
          if \<not> has_col d ''Date'' then Inl KeyError
          else if \<not> has_col d ''Staff Name'' then Inl KeyError
          else if \<not> has_col d ''Status'' then Inl KeyError
          else Inr (map (staff_stat (rows d))
                      (str_sort (remdups (List.map_filter att_staff_name (rows d))))))"

subsection \<open>Leave calendar\<close>

text \<open>
  A row of the leave table. \<open>from_date\<close> and \<open>to_date\<close> are the calendar days of the
  cells after \<open>safe_datetime_convert\<close>; \<open>None\<close> is NaT.
\<close>

record leave =
  leave_staff_name :: "string option"
  from_date :: "int option"
  to_date :: "int option"
  leave_status :: "string option"

text \<open>
  The loop that fills \<open>leave_days\<close>: one entry per day of \<open>pd.date_range(from, to)\<close>,
  which is empty when \<open>from\<close> is after \<open>to\<close>. Without the date column
  \<open>safe_datetime_convert\<close> gives NaT for every row.
\<close>

fun leave_days_loop :: "leave frame \<Rightarrow> leave list \<Rightarrow> (int \<times> string option) list" where
  "leave_days_loop df [] = []"
| "leave_days_loop df (row # rest) =
     (case (if has_col df ''From Date'' then from_date row else None) of
        None \<Rightarrow> leave_days_loop df rest
      | Some f \<Rightarrow>
          (case (if has_col df ''To Date'' then to_date row else None) of
             None \<Rightarrow> leave_days_loop df rest
           | Some t \<Rightarrow>
               map (\<lambda>d. (d, if has_col df ''Staff Name'' then leave_staff_name row else None)) [f..t]
                 @ leave_days_loop df rest))"

text \<open>
  \<open>get_leave_calendar_data\<close>: the result table as the list of its rows
  \<open>(date, leave_count)\<close>, sorted by date; the empty DataFrame is the empty list.
\<close>

definition get_leave_calendar_data :: "leave frame option \<Rightarrow> py_error + (int \<times> nat) list" where
  "get_leave_calendar_data leave_df =
     (case leave_df of
        None \<Rightarrow> Inr []
      | Some df \<Rightarrow>
          if df_empty df then Inr []
          else if \<not> has_col df ''Status'' then Inl KeyError
          else
            let approved = filter (\<lambda>r. leave_status r = Some ''Approved'') (rows df) in
            if approved = [] then Inr []
            else
              let leave_days = leave_days_loop df approved;
                  dates = map fst leave_days
              in Inr (map (\<lambda>d. (d, count_list dates d)) (sort (remdups dates))))"

text \<open>The table \<open>get_leave_calendar_data\<close> builds from the Approved rows.\<close>

definition leave_calendar_rows :: "leave frame \<Rightarrow> (int \<times> nat) list" where
  "leave_calendar_rows df =
     (let dates = map fst (leave_days_loop df (filter (\<lambda>r. leave_status r = Some ''Approved'') (rows df)))
      in map (\<lambda>d. (d, count_list dates d)) (sort (remdups dates)))"

section \<open>The specification's notions\<close>

text \<open>
  The definitions of this section follow the words of the specification; the theorems
  compare them with the functions above.
\<close>

subsection \<open>Slot availability\<close>

text \<open>
  The existing appointments the specification's \<open>hasOverlap\<close> looks at: same employee,
  same calendar date, status Confirmed or Pending, and not the excluded identifier when
  one is given.
\<close>

definition spec_blocking_rows :: "appointment list \<Rightarrow> string \<Rightarrow> int \<Rightarrow> string option \<Rightarrow> appointment list" where
  "spec_blocking_rows rs employee date exclude_id =
     filter (\<lambda>r. preferred_employee r = Some employee \<and>
                 map_option ts_day (appointment_date r) = Some date \<and>
                 (status r = Some ''Confirmed'' \<or> status r = Some ''Pending'') \<and>
                 (case exclude_id of None \<Rightarrow> True | Some x \<Rightarrow> x = [] \<or> appointment_id r \<noteq> Some x)) rs"

text \<open>
  The interval \<open>[start, start + duration)\<close> of an existing appointment in minutes from
  midnight; a row whose time of day or duration cannot be read has none.
\<close>

definition existing_interval :: "appointment \<Rightarrow> (int \<times> int) option" where
  "existing_interval r =
     (case parse_hm (cell_str (time_slot r)) of
        None \<Rightarrow> None
      | Some (h, m) \<Rightarrow>
          (case int_of_cell (duration r) of
             Inl e \<Rightarrow> None
           | Inr d \<Rightarrow> Some (h * 60 + m, h * 60 + m + d)))"

text \<open>\<open>candidateStart < existingEnd AND candidateEnd > existingStart\<close>\<close>

definition spec_intervals_overlap :: "int \<Rightarrow> int \<Rightarrow> int \<times> int \<Rightarrow> bool" where
  "spec_intervals_overlap candidate_start candidate_end existing \<longleftrightarrow>
     candidate_start < snd existing \<and> candidate_end > fst existing"

text \<open>Every row with a readable time of day has a duration that \<open>int\<close> accepts.\<close>

definition durations_readable :: "appointment list \<Rightarrow> bool" where
  "durations_readable rs \<longleftrightarrow>
     list_all (\<lambda>r. parse_hm (cell_str (time_slot r)) = None \<or> \<not> isl (int_of_cell (duration r))) rs"

text \<open>
  An appointment as the data model has it: a date without a time of day, a time slot
  \<open>HH:MM\<close> and a whole number of minutes.
\<close>

definition conforming_row :: "appointment \<Rightarrow> bool" where
  "conforming_row r \<longleftrightarrow>
     (case appointment_date r of None \<Rightarrow> True | Some t \<Rightarrow> ts_time_of_day t = 0)
     \<and> (case time_slot r of None \<Rightarrow> False | Some s \<Rightarrow> parse_hm s \<noteq> None)
     \<and> (case duration r of NumInt d \<Rightarrow> True | _ \<Rightarrow> False)"

subsection \<open>Period sums\<close>

text \<open>
  The rows of a period; the amounts among them that are numbers, those that are
  non-numeric or missing being excluded; and whether every amount of the period is a
  number or missing.
\<close>

definition spec_period_rows :: "(timestamp \<Rightarrow> bool) \<Rightarrow> sale list \<Rightarrow> sale list" where
  "spec_period_rows in_period rs =
     filter (\<lambda>r. case sale_timestamp r of None \<Rightarrow> False | Some t \<Rightarrow> in_period t) rs"










subsection \<open>New and repeated clients\<close>






subsection \<open>Attendance percentage\<close>

text \<open>
  The rows of a staff member, those with status Present among them, and the percentage
  present / total times 100 rounded to 2 decimals: a number of hundredths that is at most
  half a hundredth away from the exact percentage.
\<close>

definition spec_staff_rows :: "attendance list \<Rightarrow> string \<Rightarrow> attendance list" where
  "spec_staff_rows rs name = filter (\<lambda>r. att_staff_name r = Some name) rs"

definition spec_present_rows :: "attendance list \<Rightarrow> string \<Rightarrow> attendance list" where
  "spec_present_rows rs name =
     filter (\<lambda>r. att_status r = Some ''Present'') (spec_staff_rows rs name)"

definition spec_rounded_2_decimals :: "rat \<Rightarrow> rat \<Rightarrow> bool" where
  "spec_rounded_2_decimals x r \<longleftrightarrow> of_int \<lfloor>r * 100\<rfloor> = r * 100 \<and> \<bar>r - x\<bar> \<le> 1 / 200"

definition spec_percentage :: "nat \<Rightarrow> nat \<Rightarrow> rat \<Rightarrow> bool" where
  "spec_percentage present n r \<longleftrightarrow> spec_rounded_2_decimals (of_nat present / of_nat n * 100) r"


subsection \<open>Leave calendar\<close>

text \<open>
  A leave record covers a day when it is Approved and the day lies in its inclusive
  range; the leave count of a day is the number of records that cover it.
\<close>

definition spec_leave_covers :: "leave \<Rightarrow> int \<Rightarrow> bool" where
  "spec_leave_covers r d \<longleftrightarrow>
     leave_status r = Some ''Approved''
     \<and> (case from_date r of
          None \<Rightarrow> False
        | Some f \<Rightarrow> (case to_date r of None \<Rightarrow> False | Some t \<Rightarrow> f \<le> d \<and> d \<le> t))"

definition spec_leaves_on :: "leave list \<Rightarrow> int \<Rightarrow> nat" where
  "spec_leaves_on rs d = length (filter (\<lambda>r. spec_leave_covers r d) rs)"


section \<open>Example tables\<close>

text \<open>
  Days are counted from 1970-01-01: day 19000 is Saturday 2022-01-08, in ISO week 1 of
  2022.
\<close>

definition ex_day :: timestamp where
  "ex_day = \<lparr>ts_day = 19000, ts_time_of_day = 0, ts_year = 2022, ts_month = 1, ts_week = 1\<rparr>"

definition ex_appt :: "string \<Rightarrow> string \<Rightarrow> string \<Rightarrow> int \<Rightarrow> string \<Rightarrow> appointment" where
  "ex_appt i e t d s =
     \<lparr>appointment_id = Some i, preferred_employee = Some e, appointment_date = Some ex_day,
      time_slot = Some t, duration = NumInt d, status = Some s\<rparr>"

definition ex_appts :: "appointment frame" where
  "ex_appts =
     \<lparr>columns = appointment_columns,
      rows = [ex_appt ''APT1000'' ''Asha'' ''09:30'' 30 ''Confirmed'',
              ex_appt ''APT1001'' ''Asha'' ''11:00'' 60 ''Pending'',
              ex_appt ''APT1002'' ''Asha'' ''12:00'' 30 ''Cancelled'',
              ex_appt ''APT1003'' ''Ravi'' ''09:00'' 30 ''Confirmed'']\<rparr>"

text \<open>One Confirmed appointment whose time slot is not of the form \<open>HH:MM\<close>.\<close>

definition ex_malformed :: "appointment frame" where
  "ex_malformed =
     \<lparr>columns = appointment_columns,
      rows = [ex_appt ''APT1000'' ''Asha'' ''9am'' 30 ''Confirmed'']\<rparr>"

text \<open>The table after the booking that received the identifier \<open>APT10000\<close>.\<close>

definition ex_ledger :: "appointment frame" where
  "ex_ledger =
     \<lparr>columns = appointment_columns,
      rows = [ex_appt ''APT9999'' ''Asha'' ''09:00'' 30 ''Confirmed'',
              ex_appt ''APT10000'' ''Asha'' ''10:00'' 30 ''Confirmed'']\<rparr>"


definition ex_today :: timestamp where
  "ex_today = \<lparr>ts_day = 19000, ts_time_of_day = 720, ts_year = 2022, ts_month = 1, ts_week = 1\<rparr>"

definition ex_clock :: clock where
  "ex_clock =
     \<lparr>now = ex_today,
      week_ago = \<lparr>ts_day = 18993, ts_time_of_day = 720, ts_year = 2022, ts_month = 1, ts_week = 52\<rparr>,
      last_prev_month = \<lparr>ts_day = 18992, ts_time_of_day = 720, ts_year = 2021, ts_month = 12, ts_week = 52\<rparr>\<rparr>"


definition ex_sales_no_amount :: "sale frame" where
  "ex_sales_no_amount =
     \<lparr>columns = [''Timestamp'', ''Name'', ''Phone Number''],
      rows = [\<lparr>sale_timestamp = Some ex_today, phone_number = Some ''9000000001'', bill_amount = AmountNaN\<rparr>]\<rparr>"

definition ex_attendance_no_status :: "attendance frame" where
  "ex_attendance_no_status =
     \<lparr>columns = [''Staff Name'', ''Date''],
      rows = [\<lparr>att_staff_name = Some ''Asha'', att_status = None\<rparr>]\<rparr>"





text \<open>Thirty attendance rows of one staff member, 27 of them Present.\<close>

definition ex_attendance :: "attendance frame" where
  "ex_attendance =
     \<lparr>columns = [''Staff Name'', ''Date'', ''Status'', ''Check In'', ''Check Out''],
      rows = replicate 27 \<lparr>att_staff_name = Some ''A'', att_status = Some ''Present''\<rparr>
             @ replicate 3 \<lparr>att_staff_name = Some ''A'', att_status = Some ''Absent''\<rparr>\<rparr>"


text \<open>Two attendance rows of one staff member: one Present, one without a status.\<close>

definition ex_attendance_gap :: "attendance frame" where
  "ex_attendance_gap =
     \<lparr>columns = [''Staff Name'', ''Date'', ''Status'', ''Check In'', ''Check Out''],
      rows = [\<lparr>att_staff_name = Some ''A'', att_status = Some ''Present''\<rparr>,
              \<lparr>att_staff_name = Some ''A'', att_status = None\<rparr>]\<rparr>"

text \<open>An Approved leave of three days and a Pending leave.\<close>

definition ex_leaves :: "leave frame" where
  "ex_leaves =
     \<lparr>columns = [''Leave ID'', ''Staff Name'', ''Leave Type'', ''From Date'', ''To Date'',
                 ''Status'', ''Remarks''],
      rows = [\<lparr>leave_staff_name = Some ''Asha'', from_date = Some 19000, to_date = Some 19002,
               leave_status = Some ''Approved''\<rparr>,
              \<lparr>leave_staff_name = Some ''Ravi'', from_date = Some 19001, to_date = Some 19005,
               leave_status = Some ''Pending''\<rparr>]\<rparr>"

text \<open>The table that holds exactly the identifiers \<open>APT1000\<close> to \<open>APT1007\<close>.\<close>

definition ex_ledger8 :: "appointment frame" where
  "ex_ledger8 =
     \<lparr>columns = appointment_columns,
      rows = map (\<lambda>i. ex_appt i ''Asha'' ''09:00'' 30 ''Completed'')
               [''APT1000'', ''APT1001'', ''APT1002'', ''APT1003'', ''APT1004'', ''APT1005'',
                ''APT1006'', ''APT1007'']\<rparr>"

section \<open>Slot availability: theorems\<close>

lemma has_schema_cols:
  assumes "set appointment_columns \<subseteq> set (columns df)"
  shows "has_col df ''Appointment ID''" "has_col df ''Preferred Employee''"
    "has_col df ''Appointment Date''" "has_col df ''Time Slot''"
    "has_col df ''Duration''" "has_col df ''Status''"
  using assms by (auto simp: appointment_columns_def has_col_def)

lemma overlap_filtered_schema:
  assumes "set appointment_columns \<subseteq> set (columns df)"
  shows "overlap_filtered df employee date exclude_id
           = Inr (spec_blocking_rows (rows df) employee date exclude_id)"
proof -
  have eq: "filter (\<lambda>r. appointment_id r \<noteq> Some x) (filter (overlap_mask df employee date) rs)
          = spec_blocking_rows rs employee date (Some x)" if "x \<noteq> []" for x rs
    using that has_schema_cols[OF assms]
    by (induction rs) (auto simp: spec_blocking_rows_def overlap_mask_def)
  have eq2: "filter (overlap_mask df employee date) rs = spec_blocking_rows rs employee date ex"
    if "ex = None \<or> ex = Some []" for ex rs
    using that has_schema_cols[OF assms]
    by (induction rs) (auto simp: spec_blocking_rows_def overlap_mask_def)
  show ?thesis
  proof (cases "exclude_id = None \<or> exclude_id = Some []")
    case True
    then show ?thesis
      using has_schema_cols[OF assms] eq2[OF True]
      by (auto simp: overlap_filtered_def Let_def)
  next
    case False
    then obtain x where x: "exclude_id = Some x" "x \<noteq> []" by (cases exclude_id) auto
    then show ?thesis
      using has_schema_cols[OF assms] eq[OF x(2)]
      by (simp add: overlap_filtered_def Let_def)
  qed
qed

lemma overlap_loop_schema:
  assumes "set appointment_columns \<subseteq> set (columns df)" and "durations_readable rs"
  shows "overlap_loop df a b rs
           = Inr (\<exists>r \<in> set rs. \<exists>iv. existing_interval r = Some iv \<and> spec_intervals_overlap a b iv)"
  using assms(2)
proof (induction rs)
  case Nil
  then show ?case by simp
next
  case (Cons r rs)
  have ts: "row_time_slot df r = cell_str (time_slot r)" and du: "row_duration df r = duration r"
    using has_schema_cols[OF assms(1)] by (simp_all add: row_time_slot_def row_duration_def)
  from Cons.prems have rest: "durations_readable rs"
    and hd: "parse_hm (cell_str (time_slot r)) = None \<or> \<not> isl (int_of_cell (duration r))"
    by (simp_all add: durations_readable_def)
  note IH = Cons.IH[OF rest]
  show ?case
  proof (cases "parse_hm (cell_str (time_slot r))")
    case None
    then show ?thesis using IH by (simp add: ts existing_interval_def)
  next
    case (Some hm)
    obtain h m where hm: "hm = (h, m)" by (cases hm)
    from hd Some obtain d where d: "int_of_cell (duration r) = Inr d"
      by (cases "int_of_cell (duration r)") auto
    show ?thesis
      using IH Some hm d
      by (auto simp: ts du existing_interval_def spec_intervals_overlap_def Let_def)
  qed
qed



lemma check_overlap_schema:
  assumes cols: "set appointment_columns \<subseteq> set (columns df)"
    and slot: "parse_hm slot = Some (h, m)"
    and durs: "durations_readable (spec_blocking_rows (rows df) employee date exclude_id)"
  shows "check_overlap (Some df) employee date slot dur exclude_id
           = Inr (\<exists>r \<in> set (spec_blocking_rows (rows df) employee date exclude_id).
                    \<exists>iv. existing_interval r = Some iv
                       \<and> spec_intervals_overlap (h * 60 + m) (h * 60 + m + dur) iv)"
proof (cases "spec_blocking_rows (rows df) employee date exclude_id = []")
  case True
  then show ?thesis
    using overlap_filtered_schema[OF cols, of employee date exclude_id]
    by (simp add: check_overlap_def)
next
  case False
  then have "rows df \<noteq> []" by (auto simp: spec_blocking_rows_def)
  moreover have "columns df \<noteq> []" using cols by (auto simp: appointment_columns_def)
  ultimately have ne: "\<not> df_empty df" by (simp add: df_empty_def)
  show ?thesis
    using False ne slot overlap_filtered_schema[OF cols, of employee date exclude_id]
      overlap_loop_schema[OF cols durs]
    by (simp add: check_overlap_def Let_def)
qed

text \<open>
  C1. For a table with the appointment columns, a candidate slot that parses and
  readable durations, \<open>check_overlap\<close> returns whether some existing appointment of the
  same employee and calendar date with status Confirmed or Pending (the excluded
  identifier apart) satisfies \<open>candidateStart < existingEnd\<close> and
  \<open>candidateEnd > existingStart\<close>, with intervals in minutes from midnight. When every
  such appointment touches the candidate at an endpoint the answer is no overlap; when
  one has the candidate's own interval, of positive length, the answer is overlap.
\<close>

theorem check_overlap_half_open:
  assumes cols: "set appointment_columns \<subseteq> set (columns df)"
    and slot: "parse_hm slot = Some (h, m)"
    and durs: "durations_readable (spec_blocking_rows (rows df) employee date exclude_id)"
  shows "check_overlap (Some df) employee date slot dur exclude_id
           = Inr (\<exists>r \<in> set (spec_blocking_rows (rows df) employee date exclude_id).
                    \<exists>iv. existing_interval r = Some iv
                       \<and> spec_intervals_overlap (h * 60 + m) (h * 60 + m + dur) iv)
       \<and> ((\<forall>r \<in> set (spec_blocking_rows (rows df) employee date exclude_id).
              \<forall>iv. existing_interval r = Some iv
                   \<longrightarrow> snd iv = h * 60 + m \<or> fst iv = h * 60 + m + dur)
            \<longrightarrow> check_overlap (Some df) employee date slot dur exclude_id = Inr False)
       \<and> (0 < dur
            \<and> (\<exists>r \<in> set (spec_blocking_rows (rows df) employee date exclude_id).
                  existing_interval r = Some (h * 60 + m, h * 60 + m + dur))
            \<longrightarrow> check_overlap (Some df) employee date slot dur exclude_id = Inr True)"
proof -
  let ?rs = "spec_blocking_rows (rows df) employee date exclude_id"
  let ?a = "h * 60 + m"
  let ?hit = "\<exists>r \<in> set ?rs. \<exists>iv. existing_interval r = Some iv
                       \<and> spec_intervals_overlap ?a (?a + dur) iv"
  have main: "check_overlap (Some df) employee date slot dur exclude_id = Inr ?hit"
    by (rule check_overlap_schema[OF cols slot durs])
  have adjacent: "\<not> ?hit"
    if "\<forall>r \<in> set ?rs. \<forall>iv. existing_interval r = Some iv \<longrightarrow> snd iv = ?a \<or> fst iv = ?a + dur"
    using that by (fastforce simp: spec_intervals_overlap_def)
  have identical: "?hit"
    if "0 < dur" and "\<exists>r \<in> set ?rs. existing_interval r = Some (?a, ?a + dur)"
  proof -
    from that(2) obtain r where r: "r \<in> set ?rs" "existing_interval r = Some (?a, ?a + dur)"
      by blast
    have "spec_intervals_overlap ?a (?a + dur) (?a, ?a + dur)"
      using that(1) by (simp add: spec_intervals_overlap_def)
    with r show ?thesis by blast
  qed
  show ?thesis
    using main adjacent identical by simp
qed

lemma ex_parse: "parse_hm ''09:00'' = Some (9, 0)" "parse_hm ''09:30'' = Some (9, 30)"
  "parse_hm ''11:00'' = Some (11, 0)" "parse_hm ''12:00'' = Some (12, 0)"
  by code_simp+

lemma ex_blocking:
  "spec_blocking_rows (rows ex_appts) ''Asha'' 19000 None
     = [ex_appt ''APT1000'' ''Asha'' ''09:30'' 30 ''Confirmed'',
        ex_appt ''APT1001'' ''Asha'' ''11:00'' 60 ''Pending'']"
  by (simp add: spec_blocking_rows_def ex_appts_def ex_appt_def ex_day_def)

lemma ex_interval:
  "parse_hm t = Some (h, m) \<Longrightarrow> existing_interval (ex_appt i e t d s) = Some (h * 60 + m, h * 60 + m + d)"
  by (simp add: existing_interval_def ex_appt_def cell_str_def int_of_cell_def)

theorem check_overlap_half_open_witness:
  "set appointment_columns \<subseteq> set (columns ex_appts)
   \<and> parse_hm ''09:00'' = Some (9, 0)
   \<and> parse_hm ''09:30'' = Some (9, 30)
   \<and> durations_readable (spec_blocking_rows (rows ex_appts) ''Asha'' 19000 None)
   \<and> check_overlap (Some ex_appts) ''Asha'' 19000 ''09:00'' 30 None = Inr False
   \<and> check_overlap (Some ex_appts) ''Asha'' 19000 ''09:30'' 30 None = Inr True"
proof -
  have c: "set appointment_columns \<subseteq> set (columns ex_appts)"
    by (simp add: ex_appts_def)
  note p1 = ex_parse(1) and p2 = ex_parse(2)
  have d: "durations_readable (spec_blocking_rows (rows ex_appts) ''Asha'' 19000 None)"
    by (simp add: ex_blocking durations_readable_def ex_appt_def int_of_cell_def)
  have free: "check_overlap (Some ex_appts) ''Asha'' 19000 ''09:00'' 30 None = Inr False"
    using check_overlap_half_open[OF c p1 d, of 30]
    by (simp add: ex_blocking ex_interval ex_parse spec_intervals_overlap_def)
  have taken: "check_overlap (Some ex_appts) ''Asha'' 19000 ''09:30'' 30 None = Inr True"
    using check_overlap_half_open[OF c p2 d, of 30]
    by (simp add: ex_blocking ex_interval ex_parse spec_intervals_overlap_def)
  show ?thesis using c p1 p2 d free taken by simp
qed

lemma slot_labels_eq:
  "slot_labels =
     [''09:00'', ''09:30'', ''10:00'', ''10:30'', ''11:00'', ''11:30'', ''12:00'', ''12:30'',
      ''13:00'', ''13:30'', ''14:00'', ''14:30'', ''15:00'', ''15:30'', ''16:00'', ''16:30'',
      ''17:00'', ''17:30'', ''18:00'', ''18:30'', ''19:00'', ''19:30'']"
  by code_simp

lemma slot_labels_parse: "list_all (\<lambda>s. parse_hm s \<noteq> None) slot_labels"
  by code_simp

lemma collect_slots_returns:
  assumes "\<forall>s \<in> set ss. \<not> isl (check_overlap a e d s dur None)"
  shows "collect_slots a e d dur acc ss
           = Inr (acc @ filter (\<lambda>s. check_overlap a e d s dur None = Inr False) ss)"
  using assms
proof (induction ss arbitrary: acc)
  case Nil
  then show ?case by simp
next
  case (Cons s ss)
  from Cons.prems obtain b where b: "check_overlap a e d s dur None = Inr b"
    by (cases "check_overlap a e d s dur None") auto
  from Cons.prems have rest: "\<forall>s \<in> set ss. \<not> isl (check_overlap a e d s dur None)" by simp
  show ?case
    using Cons.IH[OF rest] b by (cases b) simp_all
qed

lemma collect_slots_result:
  assumes "collect_slots a e d dur acc ss = Inr xs"
  shows "xs = acc @ filter (\<lambda>s. check_overlap a e d s dur None = Inr False) ss
         \<and> (\<forall>s \<in> set ss. \<not> isl (check_overlap a e d s dur None))"
  using assms
proof (induction ss arbitrary: acc)
  case Nil
  then show ?case by simp
next
  case (Cons s ss)
  show ?case
  proof (cases "check_overlap a e d s dur None")
    case (Inl err)
    with Cons.prems show ?thesis by simp
  next
    case (Inr b)
    with Cons.prems Cons.IH[of "if \<not> b then acc @ [s] else acc"] show ?thesis
      by (cases b) simp_all
  qed
qed

lemma check_overlap_returns:
  assumes cols: "set appointment_columns \<subseteq> set (columns df)"
    and durs: "durations_readable (spec_blocking_rows (rows df) employee date None)"
    and s: "s \<in> set slot_labels"
  shows "\<not> isl (check_overlap (Some df) employee date s dur None)"
proof -
  from s slot_labels_parse obtain h m where "parse_hm s = Some (h, m)"
    by (fastforce simp: list_all_iff)
  from check_overlap_schema[OF cols this durs] show ?thesis by simp
qed


text \<open>
  C2. For a table with the appointment columns and readable durations,
  \<open>get_available_slots\<close> returns exactly the labels of the 30-minute enumeration from
  09:00 to 19:30 (22 labels, in that order) for which \<open>check_overlap\<close> answers no
  overlap, in the order of the enumeration; when the employee has no Confirmed or
  Pending appointment on the date, it returns all 22.
\<close>

theorem get_available_slots_exact:
  assumes cols: "set appointment_columns \<subseteq> set (columns df)"
    and durs: "durations_readable (spec_blocking_rows (rows df) employee date None)"
  shows "get_available_slots (Some df) employee date dur
           = Inr (filter (\<lambda>slot. check_overlap (Some df) employee date slot dur None = Inr False)
                    slot_labels)
       \<and> slot_labels =
           [''09:00'', ''09:30'', ''10:00'', ''10:30'', ''11:00'', ''11:30'', ''12:00'',
            ''12:30'', ''13:00'', ''13:30'', ''14:00'', ''14:30'', ''15:00'', ''15:30'',
            ''16:00'', ''16:30'', ''17:00'', ''17:30'', ''18:00'', ''18:30'', ''19:00'',
            ''19:30'']
       \<and> length slot_labels = 22
       \<and> (spec_blocking_rows (rows df) employee date None = []
            \<longrightarrow> get_available_slots (Some df) employee date dur = Inr slot_labels)"
proof -
  let ?free = "\<lambda>slot. check_overlap (Some df) employee date slot dur None = Inr False"
  have ret: "\<forall>s \<in> set slot_labels. \<not> isl (check_overlap (Some df) employee date s dur None)"
    using check_overlap_returns[OF cols durs] by blast
  have exact: "get_available_slots (Some df) employee date dur = Inr (filter ?free slot_labels)"
    using collect_slots_returns[OF ret, of "[]"] by (simp add: get_available_slots_def)
  have none: "filter ?free slot_labels = slot_labels"
    if "spec_blocking_rows (rows df) employee date None = []"
  proof -
    have "?free s" if "s \<in> set slot_labels" for s
    proof -
      from that slot_labels_parse obtain h m where "parse_hm s = Some (h, m)"
        by (fastforce simp: list_all_iff)
      from check_overlap_schema[OF cols this durs, of dur]
        \<open>spec_blocking_rows (rows df) employee date None = []\<close>
      show ?thesis by simp
    qed
    then show ?thesis by simp
  qed
  have len: "length slot_labels = 22" by (simp add: slot_labels_eq)
  show ?thesis
    using exact none len slot_labels_eq by simp
qed

lemma ex_parse_more: "parse_hm ''10:00'' = Some (10, 0)" "parse_hm ''10:30'' = Some (10, 30)"
  "parse_hm ''11:30'' = Some (11, 30)" "parse_hm ''12:30'' = Some (12, 30)"
  "parse_hm ''13:00'' = Some (13, 0)" "parse_hm ''13:30'' = Some (13, 30)"
  "parse_hm ''14:00'' = Some (14, 0)" "parse_hm ''14:30'' = Some (14, 30)"
  "parse_hm ''15:00'' = Some (15, 0)" "parse_hm ''15:30'' = Some (15, 30)"
  "parse_hm ''16:00'' = Some (16, 0)" "parse_hm ''16:30'' = Some (16, 30)"
  "parse_hm ''17:00'' = Some (17, 0)" "parse_hm ''17:30'' = Some (17, 30)"
  "parse_hm ''18:00'' = Some (18, 0)" "parse_hm ''18:30'' = Some (18, 30)"
  "parse_hm ''19:00'' = Some (19, 0)" "parse_hm ''19:30'' = Some (19, 30)"
  by code_simp+

lemma ex_durations:
  "durations_readable (spec_blocking_rows (rows ex_appts) ''Asha'' 19000 None)"
  by (simp add: ex_blocking durations_readable_def ex_appt_def int_of_cell_def)

lemma ex_columns: "set appointment_columns \<subseteq> set (columns ex_appts)"
  by (simp add: ex_appts_def)

lemmas ex_slot_parse = ex_parse ex_parse_more

lemma ex_check:
  assumes "parse_hm s = Some (h, m)"
  shows "check_overlap (Some ex_appts) ''Asha'' 19000 s dur None
           = Inr ((h * 60 + m < 600 \<and> 570 < h * 60 + m + dur)
                  \<or> (h * 60 + m < 720 \<and> 660 < h * 60 + m + dur))"
  using check_overlap_schema[OF ex_columns assms ex_durations, of dur]
  by (simp add: ex_blocking ex_interval ex_parse spec_intervals_overlap_def)

lemmas ex_checks = ex_slot_parse[THEN ex_check]

theorem get_available_slots_exact_witness:
  "set appointment_columns \<subseteq> set (columns ex_appts)
   \<and> durations_readable (spec_blocking_rows (rows ex_appts) ''Asha'' 19000 None)
   \<and> get_available_slots (Some ex_appts) ''Asha'' 19000 30
       = Inr [''09:00'', ''10:00'', ''10:30'', ''12:00'', ''12:30'', ''13:00'', ''13:30'',
              ''14:00'', ''14:30'', ''15:00'', ''15:30'', ''16:00'', ''16:30'', ''17:00'',
              ''17:30'', ''18:00'', ''18:30'', ''19:00'', ''19:30'']
   \<and> spec_blocking_rows (rows ex_appts) ''Meera'' 19000 None = []
   \<and> durations_readable (spec_blocking_rows (rows ex_appts) ''Meera'' 19000 None)
   \<and> get_available_slots (Some ex_appts) ''Meera'' 19000 30 = Inr slot_labels"
proof -
  have none: "spec_blocking_rows (rows ex_appts) ''Meera'' 19000 None = []"
    by (simp add: spec_blocking_rows_def ex_appts_def ex_appt_def)
  have d2: "durations_readable (spec_blocking_rows (rows ex_appts) ''Meera'' 19000 None)"
    by (simp add: none durations_readable_def)
  have busy: "get_available_slots (Some ex_appts) ''Asha'' 19000 30
       = Inr [''09:00'', ''10:00'', ''10:30'', ''12:00'', ''12:30'', ''13:00'', ''13:30'',
              ''14:00'', ''14:30'', ''15:00'', ''15:30'', ''16:00'', ''16:30'', ''17:00'',
              ''17:30'', ''18:00'', ''18:30'', ''19:00'', ''19:30'']"
  proof -
    have "filter (\<lambda>slot. check_overlap (Some ex_appts) ''Asha'' 19000 slot 30 None = Inr False)
            slot_labels
          = [''09:00'', ''10:00'', ''10:30'', ''12:00'', ''12:30'', ''13:00'', ''13:30'',
              ''14:00'', ''14:30'', ''15:00'', ''15:30'', ''16:00'', ''16:30'', ''17:00'',
              ''17:30'', ''18:00'', ''18:30'', ''19:00'', ''19:30'']"
      unfolding slot_labels_eq by (simp add: ex_checks)
    with get_available_slots_exact[OF ex_columns ex_durations, of 30]
    show ?thesis by simp
  qed
  have idle: "get_available_slots (Some ex_appts) ''Meera'' 19000 30 = Inr slot_labels"
    using get_available_slots_exact[OF ex_columns d2, of 30] none by blast
  show ?thesis using ex_columns ex_durations none d2 busy idle by simp
qed

lemma overlap_loop_mono:
  assumes "b1 \<le> b2" and "overlap_loop df a b1 rs = Inr True"
  shows "overlap_loop df a b2 rs = Inr True"
  using assms(2)
proof (induction rs)
  case Nil
  then show ?case by simp
next
  case (Cons r rs)
  show ?case
  proof (cases "parse_hm (row_time_slot df r)")
    case None
    with Cons show ?thesis by simp
  next
    case (Some hm)
    obtain h m where hm: "hm = (h, m)" by (cases hm)
    show ?thesis
    proof (cases "int_of_cell (row_duration df r)")
      case (Inl e)
      with Cons.prems Some hm show ?thesis by simp
    next
      case (Inr d)
      with Cons Some hm assms(1) show ?thesis
        by (auto simp: Let_def split: if_splits)
    qed
  qed
qed

lemma check_overlap_mono:
  assumes "d1 \<le> d2" and "check_overlap appts e d slot d1 x = Inr True"
  shows "check_overlap appts e d slot d2 x = Inr True"
proof (cases appts)
  case None
  with assms(2) show ?thesis by (simp add: check_overlap_def)
next
  case (Some df)
  have step: "overlap_loop df a (a + d2) rs = Inr True"
    if "overlap_loop df a (a + d1) rs = Inr True" for a rs
    using overlap_loop_mono[OF _ that, of "a + d2"] assms(1) by simp
  from Some assms(2) show ?thesis
    by (auto simp: check_overlap_def Let_def step split: if_splits sum.splits option.splits)
qed

lemma check_overlap_free_antitone:
  assumes "d1 \<le> d2" and "check_overlap appts e d slot d2 x = Inr False"
    and "\<not> isl (check_overlap appts e d slot d1 x)"
  shows "check_overlap appts e d slot d1 x = Inr False"
proof -
  from assms(3) obtain b where b: "check_overlap appts e d slot d1 x = Inr b"
    by (cases "check_overlap appts e d slot d1 x") auto
  show ?thesis
  proof (cases b)
    case True
    with b check_overlap_mono[OF assms(1)] assms(2) show ?thesis by fastforce
  next
    case False
    with b show ?thesis by simp
  qed
qed

text \<open>
  C10. For durations \<open>d1 \<le> d2\<close>: when \<open>check_overlap\<close> answers overlap for \<open>d1\<close> it
  answers overlap for \<open>d2\<close>; every slot \<open>get_available_slots\<close> returns for \<open>d2\<close> it
  also returns for \<open>d1\<close> over the same table; and for a table with the appointment
  columns and readable durations both calls return.
\<close>

theorem availability_antitone:
  assumes "d1 \<le> d2"
  shows "(check_overlap appts employee date slot d1 exclude_id = Inr True
            \<longrightarrow> check_overlap appts employee date slot d2 exclude_id = Inr True)
       \<and> (\<forall>xs1 xs2. get_available_slots appts employee date d1 = Inr xs1
                     \<and> get_available_slots appts employee date d2 = Inr xs2
                   \<longrightarrow> set xs2 \<subseteq> set xs1)
       \<and> (\<forall>df. appts = Some df \<and> set appointment_columns \<subseteq> set (columns df)
                 \<and> durations_readable (spec_blocking_rows (rows df) employee date None)
               \<longrightarrow> (\<exists>xs1 xs2. get_available_slots appts employee date d1 = Inr xs1
                              \<and> get_available_slots appts employee date d2 = Inr xs2
                              \<and> set xs2 \<subseteq> set xs1))"
proof -
  have sub: "set xs2 \<subseteq> set xs1"
    if r1: "get_available_slots appts employee date d1 = Inr xs1"
      and r2: "get_available_slots appts employee date d2 = Inr xs2" for xs1 xs2
  proof
    fix s assume "s \<in> set xs2"
    from collect_slots_result[OF r1[unfolded get_available_slots_def]]
    have xs1: "xs1 = filter (\<lambda>s. check_overlap appts employee date s d1 None = Inr False) slot_labels"
      and ret: "\<forall>s \<in> set slot_labels. \<not> isl (check_overlap appts employee date s d1 None)"
      by simp_all
    from collect_slots_result[OF r2[unfolded get_available_slots_def]]
    have xs2: "xs2 = filter (\<lambda>s. check_overlap appts employee date s d2 None = Inr False) slot_labels"
      by simp
    from \<open>s \<in> set xs2\<close> xs2 have s: "s \<in> set slot_labels"
      and free: "check_overlap appts employee date s d2 None = Inr False" by simp_all
    from check_overlap_free_antitone[OF assms free] ret s
    have "check_overlap appts employee date s d1 None = Inr False" by blast
    with s xs1 show "s \<in> set xs1" by simp
  qed
  have both: "\<exists>xs1 xs2. get_available_slots (Some df) employee date d1 = Inr xs1
                              \<and> get_available_slots (Some df) employee date d2 = Inr xs2"
    if cols: "set appointment_columns \<subseteq> set (columns df)"
      and durs: "durations_readable (spec_blocking_rows (rows df) employee date None)" for df
  proof -
    have "\<forall>s \<in> set slot_labels. \<not> isl (check_overlap (Some df) employee date s dd None)" for dd
      using check_overlap_returns[OF cols durs] by blast
    from collect_slots_returns[OF this, of _ "[]"] show ?thesis
      by (simp add: get_available_slots_def)
  qed
  show ?thesis
    using check_overlap_mono[OF assms] sub both by blast
qed

theorem availability_antitone_witness:
  "(30::int) \<le> 60
   \<and> check_overlap (Some ex_appts) ''Asha'' 19000 ''10:30'' 30 None = Inr False
   \<and> check_overlap (Some ex_appts) ''Asha'' 19000 ''10:30'' 60 None = Inr True
   \<and> check_overlap (Some ex_appts) ''Asha'' 19000 ''11:30'' 30 None = Inr True
   \<and> check_overlap (Some ex_appts) ''Asha'' 19000 ''11:30'' 60 None = Inr True
   \<and> (\<exists>xs1 xs2. get_available_slots (Some ex_appts) ''Asha'' 19000 30 = Inr xs1
                \<and> get_available_slots (Some ex_appts) ''Asha'' 19000 60 = Inr xs2
                \<and> set xs2 \<subseteq> set xs1)"
proof -
  have le: "(30::int) \<le> 60" by simp
  have a: "check_overlap (Some ex_appts) ''Asha'' 19000 ''10:30'' 30 None = Inr False"
    and b: "check_overlap (Some ex_appts) ''Asha'' 19000 ''10:30'' 60 None = Inr True"
    and c: "check_overlap (Some ex_appts) ''Asha'' 19000 ''11:30'' 30 None = Inr True"
    by (simp_all add: ex_checks)
  from availability_antitone[OF le, of "Some ex_appts" "''Asha''" 19000 "''11:30''" None] c
  have d: "check_overlap (Some ex_appts) ''Asha'' 19000 ''11:30'' 60 None = Inr True"
    by blast
  from availability_antitone[OF le, of "Some ex_appts" "''Asha''" 19000 "''11:30''" None]
    ex_columns ex_durations
  have e: "\<exists>xs1 xs2. get_available_slots (Some ex_appts) ''Asha'' 19000 30 = Inr xs1
                \<and> get_available_slots (Some ex_appts) ''Asha'' 19000 60 = Inr xs2
                \<and> set xs2 \<subseteq> set xs1"
    by blast
  show ?thesis using le a b c d e by blast
qed

section \<open>Booking ledger: theorems\<close>

subsection \<open>\<open>str\<close> and \<open>int\<close> are inverse on the natural numbers\<close>

lemma digit_char_props:
  assumes "n < 10"
  shows "is_digit (digit_char n)" and "digit_val (digit_char n) = n"
    and "\<not> is_space (digit_char n)" and "digit_char n \<noteq> CHR ''A''"
    and "digit_char n \<noteq> CHR ''-''" and "digit_char n \<noteq> CHR ''+''"
proof -
  from assms have "n \<in> {0, 1, 2, 3, 4, 5, 6, 7, 8, 9}" by auto
  then show "is_digit (digit_char n)" and "digit_val (digit_char n) = n"
    and "\<not> is_space (digit_char n)" and "digit_char n \<noteq> CHR ''A''"
    and "digit_char n \<noteq> CHR ''-''" and "digit_char n \<noteq> CHR ''+''"
    by (auto simp: is_digit_def digit_val_def digit_char_def is_space_def)
qed

lemma parse_digits_append:
  assumes "list_all is_digit xs"
  shows "parse_digits acc (xs @ ys)
           = (case parse_digits acc xs of None \<Rightarrow> None | Some v \<Rightarrow> parse_digits v ys)"
  using assms by (induction xs arbitrary: acc) simp_all

lemma show_nat_digits: "list_all is_digit (show_nat n) \<and> show_nat n \<noteq> []"
proof (induction n rule: show_nat.induct)
  case (1 n)
  show ?case
  proof (cases "n < 10")
    case True
    then show ?thesis by (simp add: show_nat.simps[of n] digit_char_props)
  next
    case False
    with 1 show ?thesis
      by (simp add: show_nat.simps[of n] digit_char_props)
  qed
qed

lemma parse_digits_show_nat: "parse_digits 0 (show_nat n) = Some n"
proof (induction n rule: show_nat.induct)
  case (1 n)
  show ?case
  proof (cases "n < 10")
    case True
    then show ?thesis by (simp add: show_nat.simps[of n] digit_char_props)
  next
    case False
    with 1 have IH: "parse_digits 0 (show_nat (n div 10)) = Some (n div 10)" by simp
    have d: "n mod 10 < 10" by simp
    show ?thesis
      using False IH show_nat_digits[of "n div 10"] digit_char_props[OF d]
      by (simp add: show_nat.simps[of n] parse_digits_append)
  qed
qed


lemma is_digit_cases:
  assumes "is_digit c"
  shows "\<not> is_space c" and "c \<noteq> CHR ''A''" and "c \<noteq> CHR ''-''" and "c \<noteq> CHR ''+''"
  using assms by (auto simp: is_digit_def is_space_def)

lemma py_strip_digits:
  assumes "list_all is_digit s"
  shows "py_strip s = s"
proof -
  have drop: "dropWhile is_space xs = xs" if "list_all is_digit xs" for xs
    using that by (cases xs) (simp_all add: is_digit_cases)
  have "list_all is_digit (rev s)" using assms by (simp add: list_all_iff)
  with drop[OF assms] drop[of "rev s"] show ?thesis by (simp add: py_strip_def)
qed

lemma py_int_show_nat: "py_int (show_nat n) = Some (int n)"
proof -
  let ?t = "show_nat n"
  from show_nat_digits[of n] have d: "list_all is_digit ?t" and ne: "?t \<noteq> []" by simp_all
  then have hd: "is_digit (hd ?t)" by (cases ?t) simp_all
  show ?thesis
    using ne hd is_digit_cases[OF hd]
    by (simp add: py_int_def py_strip_digits[OF d] py_digits_def parse_digits_show_nat)
qed

lemma remove_all_absent:
  assumes "list_all is_digit s"
  shows "remove_all ''APT'' s = s"
  using assms
proof (induction s)
  case Nil
  show ?case by (simp add: remove_all.simps[of _ "[]"])
next
  case (Cons c s)
  then have c: "c \<noteq> CHR ''A''" and IH: "remove_all ''APT'' s = s"
    by (simp_all add: is_digit_cases)
  show ?case
    using c IH by (simp add: remove_all.simps[of "''APT''" "c # s"])
qed

lemma remove_all_prefix:
  assumes "list_all is_digit s"
  shows "remove_all ''APT'' (CHR ''A'' # CHR ''P'' # CHR ''T'' # s) = s"
  using remove_all_absent[OF assms]
  by (simp add: remove_all.simps[of "''APT''" "CHR ''A'' # CHR ''P'' # CHR ''T'' # s"])

lemma those_map_Some: "those (map Some xs) = Some xs"
  by (induction xs) simp_all

lemma max_int_Max: "ns \<noteq> [] \<Longrightarrow> max_int ns = Max (set ns)"
proof (cases ns)
  case Nil
  assume "ns \<noteq> []"
  with Nil show ?thesis by simp
next
  case (Cons a list)
  have "Max (set (a # list)) = fold max list a" by (rule Max.set_eq_fold)
  with Cons show ?thesis by (simp add: max_int_def)
qed

lemma show_int_nat: "show_int (int n) = show_nat n"
  by (simp add: show_int_def)

text \<open>
  \<open>save_booking\<close> of app.py on a table whose identifiers are \<open>APT\<close> followed by a
  decimal number: the new identifier is \<open>APT\<close> followed by the largest number plus one.
\<close>

lemma booking_id_numeric:
  assumes col: "has_col df ''Appointment ID''" and ne: "ns \<noteq> []"
    and ids: "map appointment_id (rows df) = map (\<lambda>n. Some (''APT'' @ show_nat n)) ns"
  shows "booking_id (Some df) = ''APT'' @ show_nat (Max (set ns) + 1)"
proof -
  define xs where "xs = map (\<lambda>n. ''APT'' @ show_nat n) ns"
  from ids ne have "rows df \<noteq> []" by auto
  moreover from col have "columns df \<noteq> []" by (auto simp: has_col_def)
  ultimately have nonempty: "\<not> df_empty df" by (simp add: df_empty_def)
  have "map (\<lambda>r. cell_str (appointment_id r)) (rows df) = map cell_str (map appointment_id (rows df))"
    by simp
  also have "\<dots> = xs"
    unfolding ids xs_def by (simp add: cell_str_def)
  finally have strs: "map (\<lambda>r. cell_str (appointment_id r)) (rows df) = xs" .
  have sel: "filter (\<lambda>x. startswith x ''APT'') xs = xs"
    by (simp add: xs_def startswith_def filter_id_conv)
  have parsed: "map (\<lambda>x. py_int (remove_all ''APT'' x)) xs = map Some (map int ns)"
    using show_nat_digits by (simp add: xs_def remove_all_prefix py_int_show_nat)
  have mx: "max_int (map int ns) = int (Max (set ns))"
    using ne by (simp add: max_int_Max mono_Max_commute[symmetric] mono_def)
  have "int (Max (set ns)) + 1 = int (Max (set ns) + 1)" by simp
  then have shown: "show_int (int (Max (set ns)) + 1) = show_nat (Max (set ns) + 1)"
    by (simp only: show_int_nat)
  have "booking_id (Some df)
          = (case those (map (\<lambda>x. py_int (remove_all ''APT'' x))
                           (filter (\<lambda>x. startswith x ''APT'') xs)) of
               None \<Rightarrow> ''APT1000''
             | Some ms \<Rightarrow> if ms = [] then ''APT1000'' else ''APT'' @ show_int (max_int ms + 1))"
    using col nonempty by (simp add: booking_id_def strs)
  also have "\<dots> = ''APT'' @ show_int (max_int (map int ns) + 1)"
    unfolding sel parsed those_map_Some using ne by simp
  also have "\<dots> = ''APT'' @ show_nat (Max (set ns) + 1)"
    unfolding mx shown ..
  finally show ?thesis .
qed

lemma booking_id_start:
  "booking_id None = ''APT1000''"
  "rows df = [] \<Longrightarrow> booking_id (Some df) = ''APT1000''"
  "\<not> has_col df ''Appointment ID'' \<Longrightarrow> booking_id (Some df) = ''APT1000''"
  by (simp_all add: booking_id_def df_empty_def)

lemma ex_ledger8_shown:
  "show_nat 1000 = ''1000''" "show_nat 1001 = ''1001''" "show_nat 1002 = ''1002''"
  "show_nat 1003 = ''1003''" "show_nat 1004 = ''1004''" "show_nat 1005 = ''1005''"
  "show_nat 1006 = ''1006''" "show_nat 1007 = ''1007''" "show_nat 1008 = ''1008''"
  by (simp_all add: show_nat.simps digit_char_def)

text \<open>The table that holds exactly \<open>APT1000\<close> to \<open>APT1007\<close>: the next identifier is \<open>APT1008\<close>.\<close>

lemma booking_id_ex_ledger8: "booking_id (Some ex_ledger8) = ''APT1008''"
proof -
  have col: "has_col ex_ledger8 ''Appointment ID''"
    by (simp add: has_col_def ex_ledger8_def appointment_columns_def)
  have ids: "map appointment_id (rows ex_ledger8)
             = map (\<lambda>n. Some (''APT'' @ show_nat n)) [1000, 1001, 1002, 1003, 1004, 1005, 1006, 1007]"
    by (simp add: ex_ledger8_def ex_appt_def ex_ledger8_shown)
  from booking_id_numeric[OF col _ ids] show ?thesis
    by (simp add: ex_ledger8_shown)
qed

subsection \<open>The two implementations on one table\<close>

lemma ex_ledger_ids:
  "map appointment_id (rows ex_ledger) = [Some ''APT9999'', Some ''APT10000'']"
  by (simp add: ex_ledger_def ex_appt_def)

lemma ex_ledger_shape: "\<not> df_empty ex_ledger" "has_col ex_ledger ''Appointment ID''"
  by (simp_all add: ex_ledger_def df_empty_def has_col_def appointment_columns_def)

lemma ex_suffixes:
  "remove_all ''APT'' ''APT9999'' = ''9999''" "remove_all ''APT'' ''APT10000'' = ''10000''"
  "py_int ''9999'' = Some 9999" "py_int ''10000'' = Some 10000"
  "str_less ''9999'' ''10000'' = False"
  by code_simp+

lemma ex_shown: "show_int 10000 = ''10000''" "show_int 10001 = ''10001''"
  by (simp_all add: show_int_def show_nat.simps digit_char_def)

text \<open>
  C3. On the table that holds \<open>APT9999\<close> and \<open>APT10000\<close>, \<open>save_booking\<close> of
  booking_tab.py takes the maximum of the suffixes as texts, where \<open>9999\<close> is above
  \<open>10000\<close>, and assigns \<open>APT10000\<close> a second time; \<open>save_booking\<close> of app.py takes the
  maximum of the numbers and assigns \<open>APT10001\<close>.
\<close>

theorem bt_booking_id_lexicographic:
  "bt_booking_id ex_ledger = Inr ''APT10000'' \<and> booking_id (Some ex_ledger) = ''APT10001''"
proof -
  have ids: "List.map_filter appointment_id (rows ex_ledger) = [''APT9999'', ''APT10000'']"
    by (simp add: List.map_filter_def ex_ledger_def ex_appt_def)
  have bt: "bt_booking_id ex_ledger = Inr ''APT10000''"
    using ex_ledger_shape
    by (simp add: bt_booking_id_def ids ex_suffixes ex_shown str_max_def)
  have strs: "map (\<lambda>r. cell_str (appointment_id r)) (rows ex_ledger) = [''APT9999'', ''APT10000'']"
    by (simp add: ex_ledger_def ex_appt_def cell_str_def)
  have app: "booking_id (Some ex_ledger) = ''APT10001''"
    using ex_ledger_shape
    by (simp add: booking_id_def strs startswith_def ex_suffixes ex_shown max_int_def)
  show ?thesis using bt app by simp
qed

text \<open>
  \<open>check_overlap\<close> of app.py skips the rows whose time slot does not parse: on a table
  with the appointment columns and for a candidate slot that parses, it returns what it
  returns on the table without those rows.
\<close>

lemma check_overlap_as_loop:
  assumes cols: "set appointment_columns \<subseteq> set (columns df)"
    and slot: "parse_hm slot = Some (h, m)"
  shows "check_overlap (Some df) employee date slot dur exclude_id
           = overlap_loop df (h * 60 + m) (h * 60 + m + dur)
               (spec_blocking_rows (rows df) employee date exclude_id)"
proof (cases "spec_blocking_rows (rows df) employee date exclude_id = []")
  case True
  then show ?thesis
    using overlap_filtered_schema[OF cols, of employee date exclude_id]
    by (simp add: check_overlap_def)
next
  case False
  then have "rows df \<noteq> []" by (auto simp: spec_blocking_rows_def)
  moreover have "columns df \<noteq> []" using cols by (auto simp: appointment_columns_def)
  ultimately have "\<not> df_empty df" by (simp add: df_empty_def)
  then show ?thesis
    using False slot overlap_filtered_schema[OF cols, of employee date exclude_id]
    by (simp add: check_overlap_def Let_def)
qed

lemma overlap_loop_skips:
  assumes "set appointment_columns \<subseteq> set (columns df)" and "columns df' = columns df"
  shows "overlap_loop df' a b (filter (\<lambda>r. parse_hm (cell_str (time_slot r)) \<noteq> None) rs)
           = overlap_loop df a b rs"
proof -
  have same: "has_col df' c = has_col df c" for c using assms(2) by (simp add: has_col_def)
  have ts: "row_time_slot df r = cell_str (time_slot r)" "row_time_slot df' r = cell_str (time_slot r)"
    and du: "row_duration df' r = row_duration df r" for r
    using has_schema_cols[OF assms(1)] by (simp_all add: row_time_slot_def row_duration_def same)
  show ?thesis
    by (induction rs) (auto simp: ts du Let_def split: option.splits sum.splits)
qed

lemma spec_blocking_rows_filter:
  "spec_blocking_rows (filter P rs) employee date exclude_id
     = filter P (spec_blocking_rows rs employee date exclude_id)"
  by (induction rs) (simp_all add: spec_blocking_rows_def)

lemma check_overlap_skips_unparsable:
  assumes cols: "set appointment_columns \<subseteq> set (columns df)"
    and slot: "parse_hm slot = Some (h, m)"
  shows "check_overlap (Some df) employee date slot dur exclude_id
           = check_overlap
               (Some (df\<lparr>rows := filter (\<lambda>r. parse_hm (cell_str (time_slot r)) \<noteq> None) (rows df)\<rparr>))
               employee date slot dur exclude_id"
proof -
  let ?df' = "df\<lparr>rows := filter (\<lambda>r. parse_hm (cell_str (time_slot r)) \<noteq> None) (rows df)\<rparr>"
  have cols': "set appointment_columns \<subseteq> set (columns ?df')" using cols by simp
  show ?thesis
    unfolding check_overlap_as_loop[OF cols slot] check_overlap_as_loop[OF cols' slot]
    using overlap_loop_skips[OF cols, of ?df']
    by (simp add: spec_blocking_rows_filter)
qed

text \<open>
  On a table with the appointment columns whose rows are as the data model has them,
  \<open>check_overlap\<close> of booking_tab.py and \<open>check_overlap\<close> of app.py return the same.
\<close>

lemma bt_overlap_filtered_schema:
  assumes cols: "set appointment_columns \<subseteq> set (columns df)"
    and conf: "list_all conforming_row (rows df)"
  shows "bt_overlap_filtered df employee date exclude_id
           = Inr (spec_blocking_rows (rows df) employee date exclude_id)"
proof -
  have day: "(case appointment_date r of None \<Rightarrow> False
              | Some t \<Rightarrow> ts_day t = date \<and> ts_time_of_day t = 0)
             \<longleftrightarrow> map_option ts_day (appointment_date r) = Some date"
    if "conforming_row r" for r
    using that by (auto simp: conforming_row_def split: option.splits)
  have eq: "filter (\<lambda>r. preferred_employee r = Some employee \<and>
                          (case appointment_date r of
                             None \<Rightarrow> False
                           | Some t \<Rightarrow> ts_day t = date \<and> ts_time_of_day t = 0) \<and>
                          status r \<in> {Some ''Confirmed'', Some ''Pending''}) rs
            = spec_blocking_rows rs employee date None" if "list_all conforming_row rs" for rs
    using that by (induction rs) (auto simp: spec_blocking_rows_def day)
  have ex: "filter (\<lambda>r. appointment_id r \<noteq> Some x) (spec_blocking_rows rs employee date None)
            = spec_blocking_rows rs employee date (Some x)" if "x \<noteq> []" for x rs
    using that by (induction rs) (auto simp: spec_blocking_rows_def)
  have none: "spec_blocking_rows rs employee date (Some [])
              = spec_blocking_rows rs employee date None" for rs
    by (simp add: spec_blocking_rows_def)
  show ?thesis
  proof (cases "exclude_id = None \<or> exclude_id = Some []")
    case True
    then show ?thesis
      using has_schema_cols[OF cols] eq[OF conf] none
      by (auto simp: bt_overlap_filtered_def Let_def)
  next
    case False
    then obtain x where x: "exclude_id = Some x" "x \<noteq> []" by (cases exclude_id) auto
    then show ?thesis
      using has_schema_cols[OF cols] eq[OF conf] ex[OF x(2)]
      by (simp add: bt_overlap_filtered_def Let_def)
  qed
qed

lemma bt_overlap_loop_conforming:
  assumes cols: "set appointment_columns \<subseteq> set (columns df)"
    and conf: "list_all conforming_row rs"
  shows "bt_overlap_loop df a b rs = overlap_loop df a b rs"
  using conf
proof (induction rs)
  case Nil
  show ?case by simp
next
  case (Cons r rs)
  then have IH: "bt_overlap_loop df a b rs = overlap_loop df a b rs" and r: "conforming_row r"
    by simp_all
  from r obtain s hm d where s: "time_slot r = Some s" "parse_hm s = Some hm"
    and d: "duration r = NumInt d"
    by (auto simp: conforming_row_def split: option.splits num_cell.splits)
  obtain h m where hm: "hm = (h, m)" by (cases hm)
  show ?case
    using IH s d hm has_schema_cols[OF cols]
    by (simp add: row_time_slot_def row_duration_def cell_str_def int_of_cell_def Let_def)
qed

lemma spec_blocking_rows_conforming:
  "list_all conforming_row rs \<Longrightarrow> list_all conforming_row (spec_blocking_rows rs e d x)"
  by (simp add: spec_blocking_rows_def list_all_iff)

lemma bt_check_overlap_agrees:
  assumes cols: "set appointment_columns \<subseteq> set (columns df)"
    and slot: "parse_hm slot = Some (h, m)"
    and conf: "list_all conforming_row (rows df)"
  shows "bt_check_overlap df employee date slot dur exclude_id
           = check_overlap (Some df) employee date slot dur exclude_id"
proof -
  let ?rs = "spec_blocking_rows (rows df) employee date exclude_id"
  have "bt_check_overlap df employee date slot dur exclude_id
          = overlap_loop df (h * 60 + m) (h * 60 + m + dur) ?rs"
    using bt_overlap_filtered_schema[OF cols conf, of employee date exclude_id] slot
      bt_overlap_loop_conforming[OF cols spec_blocking_rows_conforming[OF conf]]
    by (cases "?rs = []") (simp_all add: bt_check_overlap_def Let_def)
  then show ?thesis by (simp add: check_overlap_as_loop[OF cols slot])
qed

text \<open>
  C5. On a table whose only appointment of the employee and date has the time slot
  \<open>9am\<close>, \<open>check_overlap\<close> of booking_tab.py raises ValueError, although it answers no
  overlap on the table without that row; \<open>check_overlap\<close> of app.py skips the row and
  answers no overlap.
\<close>

theorem bt_check_overlap_raises:
  "bt_check_overlap ex_malformed ''Asha'' 19000 ''10:00'' 30 None = Inl ValueError
   \<and> bt_check_overlap (ex_malformed\<lparr>rows := []\<rparr>) ''Asha'' 19000 ''10:00'' 30 None = Inr False
   \<and> check_overlap (Some ex_malformed) ''Asha'' 19000 ''10:00'' 30 None = Inr False"
  by code_simp

section \<open>Queries: theorems\<close>

subsection \<open>Floating-point numbers\<close>

lemma round_half_even_near: "\<bar>q - of_int n\<bar> < 1 / 2 \<Longrightarrow> round_half_even q = n"
proof -
  assume a: "\<bar>q - of_int n\<bar> < 1 / 2"
  have "\<lfloor>q\<rfloor> = n \<or> \<lfloor>q\<rfloor> = n - 1"
    using a by (auto simp: floor_eq_iff abs_less_iff)
  then show ?thesis
    using a by (auto simp: round_half_even_def Let_def abs_less_iff)
qed

lemma round_half_even_of_int: "round_half_even (of_int n) = n"
  by (rule round_half_even_near) simp

lemma round_half_even_close: "\<bar>of_int (round_half_even q) - q\<bar> \<le> 1 / 2"
proof -
  have "of_int \<lfloor>q\<rfloor> \<le> q" "q < of_int \<lfloor>q\<rfloor> + 1" by linarith+
  then show ?thesis
    by (auto simp: round_half_even_def Let_def abs_le_iff)
qed

lemma norm_up_steps:
  "2 ^ 52 \<le> m * 2 ^ k \<Longrightarrow> m * 2 ^ k < 2 ^ 53 \<Longrightarrow> - 1074 \<le> e - int k
   \<Longrightarrow> norm_up m e = (m * 2 ^ k, e - int k)"
proof (induction k arbitrary: m e)
  case 0
  then show ?case by (simp add: norm_up.simps[of m e])
next
  case (Suc k)
  have "(1::rat) \<le> 2 ^ k" by simp
  then have "m * 2 \<le> m * 2 * 2 ^ k \<or> m \<le> 0"
    by (metis mult.right_neutral mult_left_mono mult_nonneg_nonneg linear zero_le_numeral)
  with Suc.prems(2) have lt: "m < 2 ^ 52" by auto
  have e: "- 1074 < e" using Suc.prems(3) by simp
  have "norm_up m e = norm_up (m * 2) (e - 1)"
    using lt e by (simp add: norm_up.simps[of m e])
  also have "\<dots> = (m * 2 * 2 ^ k, e - 1 - int k)"
    using Suc.prems by (intro Suc.IH) (simp_all add: mult.assoc)
  finally show ?case by (simp add: mult.assoc)
qed

lemma norm_down_steps:
  "2 ^ 52 \<le> m / 2 ^ k \<Longrightarrow> m / 2 ^ k < 2 ^ 53 \<Longrightarrow> norm_down m e = (m / 2 ^ k, e + int k)"
proof (induction k arbitrary: m e)
  case 0
  then show ?case by (simp add: norm_down.simps[of m e])
next
  case (Suc k)
  have "(2::rat) ^ 52 * 2 ^ Suc k \<le> m"
    using Suc.prems(1) by (simp add: pos_le_divide_eq)
  moreover have "(2::rat) ^ 53 \<le> 2 ^ 52 * 2 ^ Suc k"
    by simp
  ultimately have ge: "2 ^ 53 \<le> m" by linarith
  have "norm_down m e = norm_down (m / 2) (e + 1)"
    using ge by (simp add: norm_down.simps[of m e])
  also have "\<dots> = (m / 2 / 2 ^ k, e + 1 + int k)"
    using Suc.prems by (intro Suc.IH) simp_all
  finally show ?case by simp
qed

lemma fl_up:
  assumes "0 < z" and "k \<le> 1074" and "2 ^ 52 \<le> z * 2 ^ k" and "z * 2 ^ k < 2 ^ 53"
    and "\<bar>z * 2 ^ k - of_int n\<bar> < 1 / 2" and "r = of_int n / 2 ^ k"
  shows "fl z = r"
proof -
  have "(1::rat) \<le> 2 ^ k" by simp
  then have "z \<le> z * 2 ^ k" using assms(1) by simp
  with assms(4) have "z < 2 ^ 53" by simp
  then have d: "norm_down z 0 = (z, 0)"
    by (simp add: norm_down.simps[of z 0])
  have u: "norm_up z 0 = (z * 2 ^ k, 0 - int k)"
    using assms by (intro norm_up_steps) simp_all
  have "round_half_even (z * 2 ^ k) = n" using assms(5) by (rule round_half_even_near)
  then show ?thesis
    using assms(1) assms(6) by (simp add: fl_def d u pow_int_def)
qed

lemma fl_down:
  assumes "2 ^ 52 \<le> z / 2 ^ k" and "z / 2 ^ k < 2 ^ 53"
    and "\<bar>z / 2 ^ k - of_int n\<bar> < 1 / 2" and "r = of_int n * 2 ^ k"
  shows "fl z = r"
proof -
  have pos: "0 < z / 2 ^ k" using assms(1) by (simp add: less_le_trans[of 0 "2 ^ 52"])
  then have z: "0 < z" by (simp add: zero_less_divide_iff)
  have "norm_down z 0 = (z / 2 ^ k, 0 + int k)"
    using assms(1,2) by (rule norm_down_steps)
  then have d: "norm_down z 0 = (z / 2 ^ k, int k)"
    by simp
  have u: "norm_up (z / 2 ^ k) (int k) = (z / 2 ^ k, int k)"
    using assms(1) by (simp add: norm_up.simps[of "z / 2 ^ k" "int k"])
  have "round_half_even (z / 2 ^ k) = n" using assms(3) by (rule round_half_even_near)
  then show ?thesis
    using z assms(4) by (simp add: fl_def d u pow_int_def)
qed

lemma pow_int_pred: "pow_int 2 (e - 1) * 2 = pow_int 2 e"
proof (cases "1 \<le> e")
  case True
  then have "nat e = Suc (nat (e - 1))" by simp
  then show ?thesis using True by (simp add: pow_int_def)
next
  case False
  then have "nat (1 - e) = Suc (nat (- e))" by simp
  then show ?thesis using False by (simp add: pow_int_def)
qed

lemma norm_up_value: "fst (norm_up m e) * pow_int 2 (snd (norm_up m e)) = m * pow_int 2 e"
proof (induction m e rule: norm_up.induct)
  case (1 m e)
  show ?case
  proof (cases "m < 2 ^ 52 \<and> - 1074 < e")
    case True
    then have "norm_up m e = norm_up (m * 2) (e - 1)" by (simp add: norm_up.simps[of m e])
    with 1[OF True] show ?thesis
      using pow_int_pred[of e] by (simp add: mult.assoc mult.commute)
  next
    case False
    then have "norm_up m e = (m, e)" by (subst norm_up.simps) auto
    then show ?thesis by simp
  qed
qed

lemma norm_up_int: "m \<in> \<int> \<Longrightarrow> fst (norm_up m e) \<in> \<int>"
proof (induction m e rule: norm_up.induct)
  case (1 m e)
  show ?case
  proof (cases "m < 2 ^ 52 \<and> - 1074 < e")
    case True
    then have "norm_up m e = norm_up (m * 2) (e - 1)" by (simp add: norm_up.simps[of m e])
    moreover have "m * 2 \<in> \<int>" using 1(2) by simp
    ultimately show ?thesis using 1(1)[OF True] by simp
  next
    case False
    then have "norm_up m e = (m, e)" by (subst norm_up.simps) auto
    then show ?thesis using 1(2) by simp
  qed
qed

lemma fl_int:
  assumes "z \<in> \<int>" and "\<bar>z\<bar> < 2 ^ 53"
  shows "fl z = z"
proof (cases "z = 0")
  case True
  then show ?thesis by (simp add: fl_def)
next
  case False
  have d: "norm_down \<bar>z\<bar> 0 = (\<bar>z\<bar>, 0)"
    using assms(2) by (simp add: norm_down.simps[of "\<bar>z\<bar>" 0])
  obtain m' e' where u: "norm_up \<bar>z\<bar> 0 = (m', e')" by (cases "norm_up \<bar>z\<bar> 0")
  have "\<bar>z\<bar> \<in> \<int>" using assms(1) by simp
  from norm_up_int[OF this, of 0] u obtain n where n: "m' = of_int n"
    by (auto elim: Ints_cases)
  from norm_up_value[of "\<bar>z\<bar>" 0] u have v: "m' * pow_int 2 e' = \<bar>z\<bar>"
    by (simp add: pow_int_def)
  have "fl z = sgn z * (m' * pow_int 2 e')"
    using False by (simp add: fl_def d u n round_half_even_of_int)
  then show ?thesis by (simp add: v mult_sgn_abs)
qed

lemma round_half_even_numeral: "round_half_even (numeral w) = numeral w"
  using round_half_even_of_int[of "numeral w"] by simp

lemma to_float64_int:
  assumes "z \<in> \<int>" and "\<bar>z\<bar> < 2 ^ 53"
  shows "to_float64 z = Finite z"
proof -
  have "(2::rat) ^ 53 \<le> 2 ^ 1024" by (rule power_increasing) simp_all
  with assms(2) have "\<not> 2 ^ 1024 \<le> \<bar>z\<bar>" by linarith
  then show ?thesis by (simp add: to_float64_def fl_int[OF assms])
qed


lemma py_float_accepted:
  "py_float ''500'' = Some (Finite 500)"
  "py_float '' 1_000.0'' = Some (Finite 1000)"
  "py_float ''-Infinity'' = Some NegInf"
  by (simp_all add: py_float_def py_strip_def is_space_def is_digit_def lower_ascii_def
      parse_decimal_def digits_val_def digit_val_def pow_int_def to_float64_int)

subsection \<open>Period sums\<close>







text \<open>
  When every amount of the period is a text, the texts are concatenated and the result is
  \<open>float\<close> of the concatenation.
\<close>

lemma py_sum_from_texts:
  "py_sum_from (PyStr s) (map fillna_0 (map AmountText ts)) = Inr (PyStr (s @ concat ts))"
  by (induction ts arbitrary: s) (simp_all add: fillna_0_def)

lemma period_sales_texts:
  assumes "has_col d ''Bill Amount''" and "has_col d ''Timestamp''"
    and "map bill_amount (spec_period_rows p (rows d)) = map AmountText (t # ts)"
  shows "period_sales p (Some d)
           = (case py_float (concat (t # ts)) of None \<Rightarrow> Inl ValueError | Some x \<Rightarrow> Inr x)"
proof -
  have "rows d \<noteq> []" using assms(3) by (auto simp: spec_period_rows_def)
  moreover have "columns d \<noteq> []" using assms(1) by (auto simp: has_col_def)
  ultimately have ne: "\<not> df_empty d" by (simp add: df_empty_def)
  have "sum_min_count_1 (map AmountText (t # ts)) = Inr (Some (PyStr (concat (t # ts))))"
    using py_sum_from_texts[of t ts] by (simp add: sum_min_count_1_def fillna_0_def)
  then show ?thesis
    using ne assms
    by (simp add: period_sales_def Let_def float_if_notna_def spec_period_rows_def)
qed




text \<open>
  C4. \<open>get_staff_attendance_stats\<close> raises AttributeError on \<open>None\<close> and KeyError on a
  table without the \<open>Status\<close> column; \<open>today_sales\<close> raises KeyError on a table that
  has a row of today but no \<open>Bill Amount\<close> column.
\<close>

theorem query_functions_raise:
  "get_staff_attendance_stats None = Inl AttributeError
   \<and> get_staff_attendance_stats (Some ex_attendance_no_status) = Inl KeyError
   \<and> today_sales ex_clock (Some ex_sales_no_amount) = Inl KeyError"
  by (simp add: get_staff_attendance_stats_def ex_attendance_no_status_def has_col_def
      today_sales_def period_sales_def ex_sales_no_amount_def df_empty_def)

lemma set_map_filter_eq: "set (List.map_filter f xs) = {y. \<exists>x \<in> set xs. f x = Some y}"
  by (induction xs) (auto split: option.splits)






lemma set_str_insort: "set (str_insort x xs) = insert x (set xs)"
  by (induction xs) auto

lemma set_str_sort: "set (str_sort xs) = set xs"
  by (induction xs) (simp_all add: str_sort_def set_str_insort)

lemma distinct_str_insort: "distinct (str_insort x xs) \<longleftrightarrow> x \<notin> set xs \<and> distinct xs"
  by (induction xs) (auto simp: set_str_insort)

lemma distinct_str_sort: "distinct xs \<Longrightarrow> distinct (str_sort xs)"
  by (induction xs) (simp_all add: str_sort_def distinct_str_insort set_str_sort[unfolded str_sort_def])

lemma staff_names_set:
  "set (List.map_filter att_staff_name rs) = {n. \<exists>r \<in> set rs. att_staff_name r = Some n}"
  by (rule set_map_filter_eq)

lemma stat_name: "stat_staff_name (staff_stat rs n) = n"
  by (simp add: staff_stat_def Let_def)

text \<open>
  The rounding of \<open>round(x, 2)\<close>: the result is the float of a number of hundredths, the
  one nearest to the float of \<open>x * 100\<close>.
\<close>

lemma np_round2_two_decimals:
  "\<exists>k. np_round2 x = fl (of_int k / 100) \<and> \<bar>of_int k - fl (x * 100)\<bar> \<le> 1 / 2"
  unfolding np_round2_def using round_half_even_close by blast

text \<open>
  Percentages of some counts. 27 of 30 is exactly 90.0. 23 of 160 is the float 14.37 and 1
  of 3 is the float 33.33; the exact percentage of 23 of 160 is 14.375, the quotient
  computed in floating-point arithmetic lies below it.
\<close>

lemma pct_27_of_30: "pct_of_counts 27 30 = Some (90)"
proof -
  have b: "fl (9 / 10) = 8106479329266893 / 9007199254740992"
    by (rule fl_up[where k = 53 and n = 8106479329266893]) simp_all
  have c: "fl (202661983231672325 / 2251799813685248) = 90"
    by (rule fl_up[where k = 46 and n = 6333186975989760]) simp_all
  have d: "fl (9000) = 9000"
    by (rule fl_up[where k = 39 and n = 4947802324992000]) simp_all
  have e: "round_half_even (9000) = 9000"
    by (rule round_half_even_near) simp
  show ?thesis
    by (simp add: pct_of_counts_def np_round2_def fl_int b c d e)
qed

lemma pct_23_of_160: "pct_of_counts 23 160 = Some (fl (1437 / 100))"
proof -
  have b: "fl (23 / 160) = 2589569785738035 / 18014398509481984"
    by (rule fl_up[where k = 55 and n = 5179139571476070]) simp_all
  have c: "fl (64739244643450875 / 4503599627370496) = 8092405580431359 / 562949953421312"
    by (rule fl_up[where k = 49 and n = 8092405580431359]) simp_all
  have d: "fl (202310139510783975 / 140737488355328) = 6322191859711999 / 4398046511104"
    by (rule fl_up[where k = 42 and n = 6322191859711999]) simp_all
  have e: "round_half_even (6322191859711999 / 4398046511104) = 1437"
    by (rule round_half_even_near) simp
  show ?thesis
    by (simp add: pct_of_counts_def np_round2_def fl_int b c d e)
qed

lemma pct_1_of_3: "pct_of_counts 1 3 = Some (fl (3333 / 100))"
proof -
  have b: "fl (1 / 3) = 6004799503160661 / 18014398509481984"
    by (rule fl_up[where k = 54 and n = 6004799503160661]) simp_all
  have c: "fl (150119987579016525 / 4503599627370496) = 2345624805922133 / 70368744177664"
    by (rule fl_up[where k = 47 and n = 4691249611844266]) simp_all
  have d: "fl (58640620148053325 / 17592186044416) = 3665038759253333 / 1099511627776"
    by (rule fl_up[where k = 41 and n = 7330077518506666]) simp_all
  have e: "round_half_even (3665038759253333 / 1099511627776) = 3333"
    by (rule round_half_even_near) simp
  show ?thesis
    by (simp add: pct_of_counts_def np_round2_def fl_int b c d e)
qed

lemma pct_1_of_1: "pct_of_counts 1 1 = Some 100" "pct_of_counts (Suc 0) (Suc 0) = Some 100"
  by (simp_all add: pct_of_counts_def np_round2_def fl_int round_half_even_numeral)

lemma fl_hundredths:
  "fl (1437 / 100) = 8089590830664253 / 562949953421312"
  "fl (3333 / 100) = 2345390243441541 / 70368744177664"
   apply (rule fl_up[where k = 49 and n = 8089590830664253]; simp)
  apply (rule fl_up[where k = 47 and n = 4690780486883082]; simp)
  done

lemma staff_stat_fields:
  "present_days (staff_stat rs n) = length (spec_present_rows rs n)"
  "total_days (staff_stat rs n)
     = length (filter (\<lambda>r. att_status r \<noteq> None) (spec_staff_rows rs n))"
  "attendance_pct (staff_stat rs n)
     = pct_of_counts (present_days (staff_stat rs n)) (total_days (staff_stat rs n))"
  by (simp_all add: staff_stat_def Let_def spec_present_rows_def spec_staff_rows_def)

lemma singleton_list: "distinct ys \<Longrightarrow> set ys = {a} \<Longrightarrow> ys = [a]"
  by (cases ys) (auto simp: subset_singleton_iff)

text \<open>
  For an attendance table with the columns Date, Staff Name and Status,
  \<open>get_staff_attendance_stats\<close> returns one row per staff name that occurs; the row
  holds the number of that staff member's rows with status Present, the number of the
  staff member's rows that have a status, and the percentage of these two counts.
\<close>

lemma get_staff_attendance_stats_rows:
  assumes "has_col d ''Date''" and "has_col d ''Staff Name''" and "has_col d ''Status''"
  shows "\<exists>stats. get_staff_attendance_stats (Some d) = Inr stats
       \<and> distinct (map stat_staff_name stats)
       \<and> set (map stat_staff_name stats) = {n. \<exists>r \<in> set (rows d). att_staff_name r = Some n}
       \<and> (\<forall>s \<in> set stats.
            present_days s = length (spec_present_rows (rows d) (stat_staff_name s))
          \<and> total_days s
              = length (filter (\<lambda>r. att_status r \<noteq> None) (spec_staff_rows (rows d) (stat_staff_name s)))
          \<and> attendance_pct s = pct_of_counts (present_days s) (total_days s))"
proof -
  let ?names = "str_sort (remdups (List.map_filter att_staff_name (rows d)))"
  let ?stats = "map (staff_stat (rows d)) ?names"
  have res: "get_staff_attendance_stats (Some d) = Inr ?stats"
    using assms by (simp add: get_staff_attendance_stats_def)
  have names: "map stat_staff_name ?stats = ?names"
    by (simp add: comp_def stat_name)
  have dist: "distinct (map stat_staff_name ?stats)"
    unfolding names by (rule distinct_str_sort) simp
  have set: "set (map stat_staff_name ?stats) = {n. \<exists>r \<in> set (rows d). att_staff_name r = Some n}"
    unfolding names by (simp add: set_str_sort staff_names_set)
  have each: "present_days s = length (spec_present_rows (rows d) (stat_staff_name s))
          \<and> total_days s
              = length (filter (\<lambda>r. att_status r \<noteq> None) (spec_staff_rows (rows d) (stat_staff_name s)))
          \<and> attendance_pct s = pct_of_counts (present_days s) (total_days s)"
    if "s \<in> set ?stats" for s
  proof -
    from that obtain n where s: "s = staff_stat (rows d) n" by auto
    show ?thesis
      unfolding s by (simp add: staff_stat_fields stat_name)
  qed
  show ?thesis
    using res dist set each by blast
qed

text \<open>
  The example of the specification: thirty rows of staff member A, each with a status,
  27 of them Present, give the percentage 90.0.
\<close>

lemma ex_attendance_names:
  "str_sort (remdups (List.map_filter att_staff_name (rows ex_attendance))) = [''A'']"
proof -
  let ?names = "str_sort (remdups (List.map_filter att_staff_name (rows ex_attendance)))"
  have "distinct ?names" by (rule distinct_str_sort) simp
  moreover have "set ?names = {''A''}"
    by (auto simp: set_str_sort staff_names_set ex_attendance_def)
  ultimately show ?thesis by (rule singleton_list)
qed

lemma ex_attendance_stats:
  "get_staff_attendance_stats (Some ex_attendance)
     = Inr [\<lparr>stat_staff_name = ''A'', total_days = 30, present_days = 27,
             attendance_pct = Some 90\<rparr>]"
proof -
  have "staff_stat (rows ex_attendance) ''A''
          = \<lparr>stat_staff_name = ''A'', total_days = 30, present_days = 27,
             attendance_pct = Some 90\<rparr>"
    by (simp add: staff_stat_def Let_def ex_attendance_def filter_replicate pct_27_of_30)
  then show ?thesis
    using ex_attendance_names
    by (simp add: get_staff_attendance_stats_def has_col_def ex_attendance_def)
qed

text \<open>
  C8. \<open>get_staff_attendance_stats\<close> takes as the total of a staff member the \<open>count\<close> of
  the status column, which leaves out the rows without a status, and not the number of
  the staff member's rows. Staff member A has two rows, one Present and one without a
  status: the function returns the total 1 and the percentage 100.0, where the two rows
  with one Present give the percentage 50.0.
\<close>

theorem attendance_total_counts_statuses:
  "get_staff_attendance_stats (Some ex_attendance_gap)
     = Inr [\<lparr>stat_staff_name = ''A'', total_days = 1, present_days = 1,
             attendance_pct = Some 100\<rparr>]
   \<and> length (spec_staff_rows (rows ex_attendance_gap) ''A'') = 2
   \<and> length (spec_present_rows (rows ex_attendance_gap) ''A'') = 1
   \<and> spec_percentage 1 2 50 \<and> \<not> spec_percentage 1 2 100"
  by (simp add: get_staff_attendance_stats_def has_col_def ex_attendance_gap_def
      List.map_filter_def str_sort_def staff_stat_def Let_def pct_1_of_1
      spec_staff_rows_def spec_present_rows_def spec_percentage_def
      spec_rounded_2_decimals_def)

lemma count_list_distinct: "distinct xs \<Longrightarrow> count_list xs x = (if x \<in> set xs then 1 else 0)"
  by (induction xs) auto

lemma count_list_upto: "count_list [f..t] d = (if f \<le> d \<and> d \<le> t then 1 else 0)"
  by (simp add: count_list_distinct)

lemma leave_days_count:
  assumes "has_col df ''From Date''" and "has_col df ''To Date''"
    and "\<forall>r \<in> set rs. leave_status r = Some ''Approved''"
  shows "count_list (map fst (leave_days_loop df rs)) d = spec_leaves_on rs d"
  using assms(3)
proof (induction rs)
  case Nil
  then show ?case by (simp add: spec_leaves_on_def)
next
  case (Cons r rs)
  then have IH: "count_list (map fst (leave_days_loop df rs)) d = spec_leaves_on rs d"
    and appr: "leave_status r = Some ''Approved''" by simp_all
  show ?case
  proof (cases "from_date r")
    case None
    then show ?thesis using IH assms(1) by (simp add: spec_leaves_on_def spec_leave_covers_def)
  next
    case (Some f)
    note f = this
    show ?thesis
    proof (cases "to_date r")
      case None
      then show ?thesis
        using IH f assms(1,2) by (simp add: spec_leaves_on_def spec_leave_covers_def)
    next
      case (Some t)
      then show ?thesis
        using IH f appr assms(1,2)
        by (simp add: spec_leaves_on_def spec_leave_covers_def comp_def count_list_upto)
    qed
  qed
qed

lemma spec_leaves_on_approved:
  "spec_leaves_on (filter (\<lambda>r. leave_status r = Some ''Approved'') rs) d = spec_leaves_on rs d"
proof -
  have "(\<lambda>r. leave_status r = Some ''Approved'' \<and> spec_leave_covers r d)
          = (\<lambda>r. spec_leave_covers r d)"
    by (auto simp: spec_leave_covers_def)
  then show ?thesis by (simp add: spec_leaves_on_def)
qed

lemma map_of_counts:
  "map_of (map (\<lambda>d. (d, c d)) ks) d = (if d \<in> set ks then Some (c d) else None)"
  by (simp add: map_of_map_restrict restrict_map_def)

lemma upto_three: "[D..D + 2] = [D, D + 1, D + 2]"
proof -
  have "[D..D + 2] = D # [D + 1..D + 2]" by (simp add: upto_rec1)
  also have "[D + 1..D + 2] = (D + 1) # [D + 2..D + 2]" by (simp add: upto_rec1)
  finally show ?thesis by simp
qed

lemma get_leave_calendar_data_rows:
  assumes "has_col df ''Status''"
  shows "get_leave_calendar_data (Some df) = Inr (leave_calendar_rows df)"
proof -
  have ne: "columns df \<noteq> []" using assms by (auto simp: has_col_def)
  show ?thesis
  proof (cases "filter (\<lambda>r. leave_status r = Some ''Approved'') (rows df) = []")
    case True
    then show ?thesis
      using assms by (simp add: get_leave_calendar_data_def leave_calendar_rows_def)
  next
    case False
    then have "rows df \<noteq> []" by auto
    with ne have "\<not> df_empty df" by (simp add: df_empty_def)
    then show ?thesis
      using assms False
      by (simp add: get_leave_calendar_data_def leave_calendar_rows_def Let_def)
  qed
qed


lemma leave_calendar_rows_props:
  assumes "has_col df ''From Date''" and "has_col df ''To Date''"
  shows "sorted (map fst (leave_calendar_rows df))"
    and "distinct (map fst (leave_calendar_rows df))"
    and "map_of (leave_calendar_rows df) d
           = (if spec_leaves_on (rows df) d = 0 then None else Some (spec_leaves_on (rows df) d))"
proof -
  let ?approved = "filter (\<lambda>r. leave_status r = Some ''Approved'') (rows df)"
  let ?dates = "map fst (leave_days_loop df ?approved)"
  have keys: "map fst (leave_calendar_rows df) = sort (remdups ?dates)"
    by (simp add: leave_calendar_rows_def Let_def comp_def)
  show "sorted (map fst (leave_calendar_rows df))" unfolding keys by simp
  show "distinct (map fst (leave_calendar_rows df))" unfolding keys by simp
  have cnt: "count_list ?dates d = spec_leaves_on (rows df) d"
    using leave_days_count[OF assms, of ?approved d] by (simp add: spec_leaves_on_approved)
  have mem: "d \<in> set ?dates \<longleftrightarrow> spec_leaves_on (rows df) d \<noteq> 0"
    using cnt count_list_0_iff[of ?dates d] by simp
  show "map_of (leave_calendar_rows df) d
           = (if spec_leaves_on (rows df) d = 0 then None else Some (spec_leaves_on (rows df) d))"
    using mem cnt by (simp add: leave_calendar_rows_def Let_def map_of_counts)
qed

lemma leave_calendar_rows_single:
  assumes "has_col df ''From Date''" and "has_col df ''To Date''"
    and "filter (\<lambda>r. leave_status r = Some ''Approved'') (rows df) = [r]"
    and "from_date r = Some D" and "to_date r = Some (D + 2)"
  shows "leave_calendar_rows df = [(D, 1), (D + 1, 1), (D + 2, 1)]"
  using assms by (simp add: leave_calendar_rows_def Let_def upto_three comp_def)

lemma leave_calendar_rows_approved:
  "leave_calendar_rows (df\<lparr>rows := filter (\<lambda>r. leave_status r = Some ''Approved'') (rows df)\<rparr>)
     = leave_calendar_rows df"
proof -
  have "leave_days_loop (df\<lparr>rows := xs\<rparr>) rs = leave_days_loop df rs" for xs rs
  proof (induction rs)
    case Nil
    show ?case by simp
  next
    case (Cons a rs)
    have "has_col (df\<lparr>rows := xs\<rparr>) c = has_col df c" for c by (simp add: has_col_def)
    with Cons show ?case by (simp split: option.splits)
  qed
  then show ?thesis by (simp add: leave_calendar_rows_def)
qed

text \<open>
  C9. For a leave table with the columns Status, From Date and To Date,
  \<open>get_leave_calendar_data\<close> returns one row per calendar day that lies in the inclusive
  range of some Approved leave, sorted by day, and the count of a day is the number of
  Approved leave records whose range holds it. When the only Approved leave runs from
  day D to day D + 2, the rows are D, D + 1 and D + 2 with count 1 each. Leaves with
  another status contribute nothing: the result is that of the table of the Approved
  leaves alone.
\<close>

theorem leave_calendar_expansion:
  assumes "has_col df ''Status''" and "has_col df ''From Date''" and "has_col df ''To Date''"
  shows "\<exists>res. get_leave_calendar_data (Some df) = Inr res
       \<and> sorted (map fst res) \<and> distinct (map fst res)
       \<and> (\<forall>d. map_of res d
                = (if spec_leaves_on (rows df) d = 0 then None
                   else Some (spec_leaves_on (rows df) d)))
       \<and> (\<forall>r D. filter (\<lambda>r. leave_status r = Some ''Approved'') (rows df) = [r]
                 \<and> from_date r = Some D \<and> to_date r = Some (D + 2)
               \<longrightarrow> res = [(D, 1), (D + 1, 1), (D + 2, 1)])
       \<and> get_leave_calendar_data
            (Some (df\<lparr>rows := filter (\<lambda>r. leave_status r = Some ''Approved'') (rows df)\<rparr>))
           = Inr res"
proof -
  let ?res = "leave_calendar_rows df"
  let ?df' = "df\<lparr>rows := filter (\<lambda>r. leave_status r = Some ''Approved'') (rows df)\<rparr>"
  have r: "get_leave_calendar_data (Some df) = Inr ?res"
    by (rule get_leave_calendar_data_rows[OF assms(1)])
  have "has_col ?df' ''Status''" using assms(1) by (simp add: has_col_def)
  from get_leave_calendar_data_rows[OF this]
  have r': "get_leave_calendar_data (Some ?df') = Inr ?res"
    by (simp add: leave_calendar_rows_approved)
  note p = leave_calendar_rows_props[OF assms(2,3)]
  have single: "?res = [(D, 1), (D + 1, 1), (D + 2, 1)]"
    if "filter (\<lambda>r. leave_status r = Some ''Approved'') (rows df) = [r]"
      and "from_date r = Some D" and "to_date r = Some (D + 2)" for r D
    using leave_calendar_rows_single[OF assms(2,3) that] .
  show ?thesis
    using r r' p single by blast
qed

theorem leave_calendar_expansion_witness:
  "has_col ex_leaves ''Status'' \<and> has_col ex_leaves ''From Date''
   \<and> has_col ex_leaves ''To Date''
   \<and> get_leave_calendar_data (Some ex_leaves) = Inr [(19000, 1), (19001, 1), (19002, 1)]"
proof -
  have c: "has_col ex_leaves ''Status''" "has_col ex_leaves ''From Date''"
    "has_col ex_leaves ''To Date''"
    by (simp_all add: has_col_def ex_leaves_def)
  let ?r = "\<lparr>leave_staff_name = Some ''Asha'', from_date = Some 19000, to_date = Some 19002,
               leave_status = Some ''Approved''\<rparr>"
  have a: "filter (\<lambda>r. leave_status r = Some ''Approved'') (rows ex_leaves) = [?r]"
    by (simp add: ex_leaves_def)
  have f: "from_date ?r = Some 19000" and t: "to_date ?r = Some (19000 + 2)" by simp_all
  from leave_calendar_expansion[OF c] obtain res where
    res: "get_leave_calendar_data (Some ex_leaves) = Inr res"
    and one: "\<forall>r D. filter (\<lambda>r. leave_status r = Some ''Approved'') (rows ex_leaves) = [r]
                 \<and> from_date r = Some D \<and> to_date r = Some (D + 2)
               \<longrightarrow> res = [(D, 1), (D + 1, 1), (D + 2, 1)]"
    by blast
  from one a f t have "res = [(19000, 1), (19000 + 1, 1), (19000 + 2, 1)]" by blast
  with res c show ?thesis by simp
qed

end
